theory Spec2Isabelle
  imports Complex_Main "HOL-Library.Multiset"
begin

section \<open>Time values and calendar arithmetic of the JavaScript \<open>Date\<close> object\<close>

text \<open>
  \<open>computeTodayWindow\<close> (src/lib/hooks/useMLPrediction.ts, lines 46-75) is built from
  \<open>Date.UTC\<close>, \<open>Date.prototype.toISOString\<close> and \<open>Intl.DateTimeFormat\<close>. A time value is a
  number of milliseconds since 1970-01-01T00:00:00Z, an \<open>int\<close> here. The functions below
  carry the names of the abstract operations of the ECMAScript specification (section
  "Time Values and Time Range") that those built-ins are defined by.
\<close>

definition msPerDay :: int where
  "msPerDay = 86400000"

definition Day :: "int \<Rightarrow> int" where
  "Day t = t div msPerDay"

definition TimeWithinDay :: "int \<Rightarrow> int" where
  "TimeWithinDay t = t mod msPerDay"

definition DaysInYear :: "int \<Rightarrow> int" where
  "DaysInYear y =
     (if y mod 4 \<noteq> 0 then 365
      else if y mod 100 \<noteq> 0 then 366
      else if y mod 400 \<noteq> 0 then 365
      else 366)"

definition DayFromYear :: "int \<Rightarrow> int" where
  "DayFromYear y =
     365 * (y - 1970) + (y - 1969) div 4 - (y - 1901) div 100 + (y - 1601) div 400"

lemma div_succ_int:
  fixes a k :: int
  assumes "0 < k"
  shows "(a + 1) div k = a div k + (if (a + 1) mod k = 0 then 1 else 0)"
proof (cases "a mod k + 1 < k")
  case True
  have e: "a + 1 = k * (a div k) + (a mod k + 1)" by simp
  have r: "0 \<le> a mod k + 1" using assms by (simp add: add_nonneg_nonneg)
  have "(a + 1) div k = a div k" using int_div_pos_eq [OF e r True] .
  moreover have "(a + 1) mod k = a mod k + 1" using int_mod_pos_eq [OF e r True] .
  moreover have "0 \<le> a mod k" using assms by simp
  ultimately show ?thesis by simp
next
  case False
  have "a mod k < k" using assms by simp
  with False have m: "a mod k = k - 1" by simp
  have d: "k * (a div k) + a mod k = a" by simp
  have x: "k * (a div k + 1) = k * (a div k) + k" by (simp add: distrib_left)
  have e: "a + 1 = k * (a div k + 1) + 0" using m d x by linarith
  have "(a + 1) div k = a div k + 1" using int_div_pos_eq [OF e _ assms] by simp
  moreover have "(a + 1) mod k = 0" using int_mod_pos_eq [OF e _ assms] by simp
  ultimately show ?thesis by simp
qed

lemma mod_shift:
  fixes y c k :: int
  assumes "k dvd c"
  shows "((y - c) mod k = 0) = (y mod k = 0)"
  using assms by (simp add: mod_eq_0_iff_dvd dvd_diff_left_iff)

lemma DayFromYear_Suc: "DayFromYear (y + 1) = DayFromYear y + DaysInYear y"
proof -
  have a: "(y + 1 - 1969) div 4 = (y - 1969) div 4 + (if (y - 1968) mod 4 = 0 then 1 else 0)"
    using div_succ_int [of 4 "y - 1969"] by (simp add: algebra_simps)
  have b: "(y + 1 - 1901) div 100 =
      (y - 1901) div 100 + (if (y - 1900) mod 100 = 0 then 1 else 0)"
    using div_succ_int [of 100 "y - 1901"] by (simp add: algebra_simps)
  have c: "(y + 1 - 1601) div 400 =
      (y - 1601) div 400 + (if (y - 1600) mod 400 = 0 then 1 else 0)"
    using div_succ_int [of 400 "y - 1601"] by (simp add: algebra_simps)
  have a': "((y - 1968) mod 4 = 0) = (y mod 4 = 0)" using mod_shift [of 4 1968 y] by simp
  have b': "((y - 1900) mod 100 = 0) = (y mod 100 = 0)" using mod_shift [of 100 1900 y] by simp
  have c': "((y - 1600) mod 400 = 0) = (y mod 400 = 0)" using mod_shift [of 400 1600 y] by simp
  have d1: "y mod 400 = 0 \<Longrightarrow> y mod 100 = 0"
    using dvd_trans [of 100 400 y] by (simp add: mod_eq_0_iff_dvd)
  have d2: "y mod 100 = 0 \<Longrightarrow> y mod 4 = 0"
    using dvd_trans [of 4 100 y] by (simp add: mod_eq_0_iff_dvd)
  show ?thesis
    unfolding DayFromYear_def DaysInYear_def a b c a' b' c' using d1 d2 by auto
qed

lemma DaysInYear_bounds: "365 \<le> DaysInYear y \<and> DaysInYear y \<le> 366"
  by (simp add: DaysInYear_def)

text \<open>
  \<open>YearFromTime(t)\<close> is "the largest integer \<open>y\<close> such that \<open>TimeFromYear(y) \<le> t\<close>". It is
  computed by a search upwards from an estimate that is never too large (no year has more
  than 366 days, none fewer than 365).
\<close>

function year_search :: "int \<Rightarrow> int \<Rightarrow> int" where
  "year_search d y = (if DayFromYear (y + 1) \<le> d then year_search d (y + 1) else y)"
  by pat_completeness auto
termination
proof (relation "measure (\<lambda>(d, y). nat (d - DayFromYear y))")
  show "wf (measure (\<lambda>(d, y). nat (d - DayFromYear y)))" by simp
next
  fix d y assume "DayFromYear (y + 1) \<le> d"
  then show "((d, y + 1), (d, y)) \<in> measure (\<lambda>(d, y). nat (d - DayFromYear y))"
    using DayFromYear_Suc [of y] DaysInYear_bounds [of y] by simp
qed

declare year_search.simps [simp del]

definition YearFromDay :: "int \<Rightarrow> int" where
  "YearFromDay d = year_search d (1970 + (if 0 \<le> d then d div 366 else d div 365))"

definition YearFromTime :: "int \<Rightarrow> int" where
  "YearFromTime t = YearFromDay (Day t)"

definition DayWithinYear :: "int \<Rightarrow> int" where
  "DayWithinYear t = Day t - DayFromYear (YearFromTime t)"

definition InLeapYear :: "int \<Rightarrow> int" where
  "InLeapYear t = (if DaysInYear (YearFromTime t) = 366 then 1 else 0)"

text \<open>The day number within the year on which month \<open>m\<close> (0 = January) starts.\<close>

definition month_start :: "int \<Rightarrow> int \<Rightarrow> int" where
  "month_start m leap =
     (if m = 0 then 0 else if m = 1 then 31 else if m = 2 then 59 + leap
      else if m = 3 then 90 + leap else if m = 4 then 120 + leap
      else if m = 5 then 151 + leap else if m = 6 then 181 + leap
      else if m = 7 then 212 + leap else if m = 8 then 243 + leap
      else if m = 9 then 273 + leap else if m = 10 then 304 + leap
      else 334 + leap)"

definition MonthOfDay :: "int \<Rightarrow> int \<Rightarrow> int" where
  "MonthOfDay d leap =
     (if d < 31 then 0 else if d < 59 + leap then 1 else if d < 90 + leap then 2
      else if d < 120 + leap then 3 else if d < 151 + leap then 4
      else if d < 181 + leap then 5 else if d < 212 + leap then 6
      else if d < 243 + leap then 7 else if d < 273 + leap then 8
      else if d < 304 + leap then 9 else if d < 334 + leap then 10
      else 11)"

definition MonthFromTime :: "int \<Rightarrow> int" where
  "MonthFromTime t = MonthOfDay (DayWithinYear t) (InLeapYear t)"

definition DateFromTime :: "int \<Rightarrow> int" where
  "DateFromTime t = DayWithinYear t - month_start (MonthFromTime t) (InLeapYear t) + 1"

definition HourFromTime :: "int \<Rightarrow> int" where
  "HourFromTime t = (t div 3600000) mod 24"

definition MinFromTime :: "int \<Rightarrow> int" where
  "MinFromTime t = (t div 60000) mod 60"

definition SecFromTime :: "int \<Rightarrow> int" where
  "SecFromTime t = (t div 1000) mod 60"

definition msFromTime :: "int \<Rightarrow> int" where
  "msFromTime t = t mod 1000"

definition MakeTime :: "int \<Rightarrow> int \<Rightarrow> int \<Rightarrow> int \<Rightarrow> int" where
  "MakeTime h m s ms = h * 3600000 + m * 60000 + s * 1000 + ms"

definition MakeDay :: "int \<Rightarrow> int \<Rightarrow> int \<Rightarrow> int" where
  "MakeDay year month date =
     (let ym = year + month div 12; mn = month mod 12 in
      DayFromYear ym + month_start mn (if DaysInYear ym = 366 then 1 else 0) + date - 1)"

definition MakeDate :: "int \<Rightarrow> int \<Rightarrow> int" where
  "MakeDate day time = day * msPerDay + time"

text \<open>\<open>TimeClip\<close>: a time value beyond \<open>\<plusminus>8.64e15\<close> ms is \<open>NaN\<close> (an invalid date), here \<open>None\<close>.\<close>

definition TimeClip :: "int \<Rightarrow> int option" where
  "TimeClip t = (if \<bar>t\<bar> > 8640000000000000 then None else Some t)"

text \<open>\<open>Date.UTC(year, month, date, hours, minutes, seconds)\<close>; years 0..99 mean 1900..1999.\<close>

definition Date_UTC :: "int \<Rightarrow> int \<Rightarrow> int \<Rightarrow> int \<Rightarrow> int \<Rightarrow> int \<Rightarrow> int option" where
  "Date_UTC y mo d h mi s =
     (let yr = (if 0 \<le> y \<and> y \<le> 99 then 1900 + y else y) in
      TimeClip (MakeDate (MakeDay yr mo d) (MakeTime h mi s 0)))"


section \<open>Number and date formatting\<close>

definition digit_char :: "nat \<Rightarrow> char" where
  "digit_char n = char_of (48 + n)"

text \<open>
  \<open>String(n)\<close> for an integer (of the magnitudes of a year, a month or a day): its decimal
  digits with no leading zero, after a minus sign when it is negative.
\<close>

fun dec_nat :: "nat \<Rightarrow> string" where
  "dec_nat n = (if n < 10 then [digit_char n] else dec_nat (n div 10) @ [digit_char (n mod 10)])"

declare dec_nat.simps [simp del]

definition String_int :: "int \<Rightarrow> string" where
  "String_int i = (if i < 0 then CHR ''-'' # dec_nat (nat (- i)) else dec_nat (nat i))"

definition padStart :: "nat \<Rightarrow> char \<Rightarrow> string \<Rightarrow> string" where
  "padStart n c s = replicate (n - length s) c @ s"

text \<open>
  \<open>String.prototype.replace\<close> with a one-character string pattern: the first occurrence
  only is replaced.
\<close>

fun replace_first :: "char \<Rightarrow> string \<Rightarrow> string \<Rightarrow> string" where
  "replace_first c r [] = []"
| "replace_first c r (x # xs) = (if x = c then r @ xs else x # replace_first c r xs)"

text \<open>
  The year of \<open>toISOString\<close>: four digits for 0..9999, otherwise a sign and six digits.
\<close>

definition iso_year :: "int \<Rightarrow> string" where
  "iso_year y =
     (if 0 \<le> y \<and> y \<le> 9999 then padStart 4 CHR ''0'' (String_int y)
      else (if y < 0 then CHR ''-'' else CHR ''+'') # padStart 6 CHR ''0'' (String_int \<bar>y\<bar>))"

definition pad2 :: "int \<Rightarrow> string" where
  "pad2 i = padStart 2 CHR ''0'' (String_int i)"

definition pad3 :: "int \<Rightarrow> string" where
  "pad3 i = padStart 3 CHR ''0'' (String_int i)"

text \<open>\<open>Date.prototype.toISOString\<close> of a valid time value: \<open>YYYY-MM-DDTHH:mm:ss.sssZ\<close>.\<close>

definition toISOString :: "int \<Rightarrow> string" where
  "toISOString t =
     iso_year (YearFromTime t) @ ''-'' @ pad2 (MonthFromTime t + 1) @ ''-'' @
     pad2 (DateFromTime t) @ ''T'' @ pad2 (HourFromTime t) @ '':'' @ pad2 (MinFromTime t) @
     '':'' @ pad2 (SecFromTime t) @ ''.'' @ pad3 (msFromTime t) @ ''Z''"

text \<open>
  \<open>Intl.DateTimeFormat('en-CA', {timeZone: 'Asia/Kolkata', year, month, day})\<close> followed by
  \<open>Number\<close> of the year, month and day parts: the calendar date of the instant in
  Asia/Kolkata. The zone is five and a half hours ahead of UTC with no daylight saving
  (the source's comment on line 47: "IST is fixed +5:30"; the zone's rules have said so
  for every instant since 1945, so for every instant a clock can return today). The
  statements about the window are made for clock readings from 1970 on.
\<close>

definition istOffsetMs :: int where
  "istOffsetMs = 19800000"

definition kolkata_parts :: "int \<Rightarrow> int \<times> int \<times> int" where
  "kolkata_parts now =
     (let lt = now + istOffsetMs in (YearFromTime lt, MonthFromTime lt + 1, DateFromTime lt))"

section \<open>The session window calculator\<close>

record TodayWindow =
  fromOffset :: string
  toOffset :: string
  fetchFromZ :: string
  fetchToZ :: string
  key :: string

text \<open>
  \<open>computeTodayWindow\<close> reads the clock twice: \<open>now1\<close> is the \<open>new Date()\<close> of line 53 that
  the calendar date is taken from, \<open>now2\<close> the \<open>new Date()\<close> of line 61 that becomes the end
  of the window. The result is \<open>None\<close> where the source throws: \<open>toISOString\<close> raises a
  \<open>RangeError\<close> on the invalid date that \<open>Date.UTC\<close> returns out of range.
\<close>

definition computeTodayWindow :: "int \<Rightarrow> int \<Rightarrow> TodayWindow option" where
  "computeTodayWindow now1 now2 =
     (case kolkata_parts now1 of (y, m, d) \<Rightarrow>
        (case Date_UTC y (m - 1) d 3 45 0 of
           None \<Rightarrow> None
         | Some openUtcMs \<Rightarrow>
             Some \<lparr> fromOffset = replace_first CHR ''Z'' ''+00:00'' (toISOString openUtcMs),
                    toOffset = replace_first CHR ''Z'' ''+00:00'' (toISOString now2),
                    fetchFromZ = toISOString openUtcMs,
                    fetchToZ = toISOString now2,
                    key = String_int y @ ''-'' @ padStart 2 CHR ''0'' (String_int m) @ ''-'' @
                          padStart 2 CHR ''0'' (String_int d) \<rparr>))"

section \<open>The instant an ISO 8601 string denotes\<close>

text \<open>
  The window holds its instants as text only, so a statement about "the start instant"
  needs the reading of that text. \<open>iso_instant\<close> is the ISO 8601 reading of
  \<open>YYYY-MM-DDTHH:mm:ss.sss\<close> followed by \<open>Z\<close> or by an offset \<open>+HH:MM\<close> / \<open>-HH:MM\<close>, which
  is what both backend endpoints named in the source's comments apply to it. It is a
  specification of the notation for strings of that shape, not code of the repository.
\<close>

definition digit_val :: "char \<Rightarrow> nat option" where
  "digit_val c =
     (let n = (of_char c :: nat) in if 48 \<le> n \<and> n \<le> 57 then Some (n - 48) else None)"

fun digits_val :: "nat \<Rightarrow> string \<Rightarrow> nat option" where
  "digits_val acc [] = Some acc"
| "digits_val acc (c # cs) =
     (case digit_val c of None \<Rightarrow> None | Some v \<Rightarrow> digits_val (10 * acc + v) cs)"

definition num_field :: "string \<Rightarrow> nat \<Rightarrow> nat \<Rightarrow> int option" where
  "num_field s pos len = map_option int (digits_val 0 (take len (drop pos s)))"

definition zone_offset :: "string \<Rightarrow> int option" where
  "zone_offset z =
     (if z = ''Z'' then Some 0
      else if length z = 6 \<and> (z ! 0 = CHR ''+'' \<or> z ! 0 = CHR ''-'') \<and> z ! 3 = CHR '':'' then
        (case (num_field z 1 2, num_field z 4 2) of
           (Some h, Some m) \<Rightarrow>
             Some ((if z ! 0 = CHR ''-'' then - 1 else 1) * (h * 3600000 + m * 60000))
         | _ \<Rightarrow> None)
      else None)"

definition iso_instant :: "string \<Rightarrow> int option" where
  "iso_instant s =
     (if length s < 24 \<or> s ! 4 \<noteq> CHR ''-'' \<or> s ! 7 \<noteq> CHR ''-'' \<or> s ! 10 \<noteq> CHR ''T'' \<or>
         s ! 13 \<noteq> CHR '':'' \<or> s ! 16 \<noteq> CHR '':'' \<or> s ! 19 \<noteq> CHR ''.'' then None
      else
        (case (num_field s 0 4, num_field s 5 2, num_field s 8 2, num_field s 11 2,
               num_field s 14 2, num_field s 17 2, num_field s 20 3, zone_offset (drop 23 s)) of
           (Some y, Some mo, Some d, Some h, Some mi, Some sec, Some ms, Some off) \<Rightarrow>
             Some (MakeDate (MakeDay y (mo - 1) d) (MakeTime h mi sec ms) - off)
         | _ \<Rightarrow> None))"


section \<open>Bars, JavaScript numbers and parsed JSON\<close>

text \<open>
  A JavaScript number is a double: a finite value, one of the two infinities, or \<open>NaN\<close>.
  The prices are never computed with, so the finite values are kept as rationals.
\<close>

datatype number = Finite rat | PosInfinity | NegInfinity | NaN

fun isFinite :: "number \<Rightarrow> bool" where
  "isFinite (Finite r) = True"
| "isFinite PosInfinity = False"
| "isFinite NegInfinity = False"
| "isFinite NaN = False"

text \<open>
  \<open>OHLCVBar\<close> (the type declared in src/unnamed/part\_000). \<open>volume\<close> is \<open>None\<close> where the
  source stores \<open>null\<close>. The field \<open>open\<close> of the source is \<open>open_price\<close> here.
\<close>

record OHLCVBar =
  timestamp :: string
  open_price :: number
  high :: number
  low :: number
  close :: number
  volume :: "number option"

text \<open>
  What \<open>JSON.parse\<close> returns. An object is the list of its properties (a name occurs
  once: the parser keeps the last of two equal names).
\<close>

datatype json =
    JNull
  | JBool bool
  | JNum number
  | JStr string
  | JArr "json list"
  | JObj "(string \<times> json) list"

text \<open>The truth value of a JavaScript value (\<open>!msg\<close>, \<open>ticks[0] || {}\<close>).\<close>

fun truthy :: "json \<Rightarrow> bool" where
  "truthy JNull = False"
| "truthy (JBool b) = b"
| "truthy (JNum n) = (case n of Finite r \<Rightarrow> r \<noteq> 0 | NaN \<Rightarrow> False | _ \<Rightarrow> True)"
| "truthy (JStr s) = (s \<noteq> [])"
| "truthy (JArr xs) = True"
| "truthy (JObj kvs) = True"

text \<open>
  Reading one of the properties \<open>type\<close>, \<open>ticks\<close>, \<open>received_at\<close>, \<open>last_price\<close>: \<open>None\<close> is
  \<open>undefined\<close>. Only an object from the parser can have a property of these names;
  numbers, strings, booleans and arrays have none.
\<close>

fun get_prop :: "json \<Rightarrow> string \<Rightarrow> json option" where
  "get_prop (JObj kvs) k = map_of kvs k"
| "get_prop v k = None"

text \<open>
  \<open>Number(v)\<close>. The conversion of \<open>undefined\<close>, \<open>null\<close>, booleans and numbers is fixed
  here; the conversion of a string (\<open>StringToNumber\<close>) and of an array or object (through
  \<open>ToPrimitive\<close>, which can throw a \<open>TypeError\<close>: \<open>None\<close>) is the parameter \<open>coerce\<close>, so
  that every statement below holds whatever those conversions return.
\<close>

fun Number_of :: "(json \<Rightarrow> number option) \<Rightarrow> json option \<Rightarrow> number option" where
  "Number_of coerce None = Some NaN"
| "Number_of coerce (Some JNull) = Some (Finite 0)"
| "Number_of coerce (Some (JBool b)) = Some (Finite (if b then 1 else 0))"
| "Number_of coerce (Some (JNum n)) = Some n"
| "Number_of coerce (Some v) = coerce v"

section \<open>The live tick stream client\<close>

text \<open>
  \<open>useLiveTicks\<close> (src/unnamed/part\_014). The state that the message handler reads and
  writes: the \<open>points\<close> of \<open>useState\<close> and the \<open>lastEmitMsRef\<close> of \<open>useRef\<close>.
\<close>

record live_state =
  points :: "OHLCVBar list"
  lastEmitMs :: int

text \<open>The state after the effect has (re)connected: lines 56 and 57.\<close>

definition connected_state :: live_state where
  "connected_state = \<lparr> points = [], lastEmitMs = 0 \<rparr>"

text \<open>
  One delivery to \<open>ws.onmessage\<close>: the result of \<open>JSON.parse(String(evt.data))\<close> (\<open>None\<close> where
  it throws), the \<open>Date.now()\<close> of line 83 and the \<open>new Date()\<close> of line 88.
\<close>

record tick_event =
  evt_data :: "json option"
  nowMs :: int
  nowDate :: int

definition MAX_POINTS :: nat where
  "MAX_POINTS = 30000"

text \<open>The updater passed to \<open>setPoints\<close> (lines 98-106).\<close>

definition setPoints_updater :: "OHLCVBar list \<Rightarrow> OHLCVBar \<Rightarrow> OHLCVBar list" where
  "setPoints_updater prev bar =
     (let next = prev @ [bar] in
      if length next > MAX_POINTS then drop (length next - MAX_POINTS) next else next)"

text \<open>\<open>Array.isArray(msg.ticks) ? msg.ticks : []\<close> (line 74).\<close>

definition ticks_of :: "json \<Rightarrow> json list" where
  "ticks_of msg = (case get_prop msg ''ticks'' of Some (JArr ts) \<Rightarrow> ts | _ \<Rightarrow> [])"

text \<open>
  Lines 78-80: \<open>lpRaw\<close> of the first tick (or of \<open>{}\<close> when that is falsy) and the number
  \<open>lp\<close> made of it; \<open>None\<close> where \<open>Number\<close> throws.
\<close>

definition lpRaw_of :: "json \<Rightarrow> json option" where
  "lpRaw_of t0 = get_prop (if truthy t0 then t0 else JObj []) ''last_price''"

definition lp_of :: "(json \<Rightarrow> number option) \<Rightarrow> json \<Rightarrow> number option" where
  "lp_of coerce t0 =
     (case lpRaw_of t0 of Some (JNum n) \<Rightarrow> Some n | raw \<Rightarrow> Number_of coerce raw)"

text \<open>
  Lines 66-81: the validation. The result is the message and its price where the handler
  goes on to the throttle, \<open>None\<close> where it returns (or throws) before.
\<close>

definition validated :: "(json \<Rightarrow> number option) \<Rightarrow> json option \<Rightarrow> (json \<times> number) option" where
  "validated coerce d =
     (case d of
        None \<Rightarrow> None
      | Some msg \<Rightarrow>
          if \<not> truthy msg \<or> get_prop msg ''type'' \<noteq> Some (JStr ''ticks'') then None
          else (case ticks_of msg of
                  [] \<Rightarrow> None
                | t0 # rest \<Rightarrow>
                    (case lp_of coerce t0 of
                       None \<Rightarrow> None
                     | Some lp \<Rightarrow> if isFinite lp then Some (msg, lp) else None)))"

text \<open>
  Lines 83-96: the throttle and the synthesized bar; \<open>None\<close> where no bar is made.
\<close>

definition new_bar :: "(json \<Rightarrow> number option) \<Rightarrow> live_state \<Rightarrow> tick_event \<Rightarrow> OHLCVBar option" where
  "new_bar coerce st ev =
     (case validated coerce (evt_data ev) of
        None \<Rightarrow> None
      | Some (msg, lp) \<Rightarrow>
          if nowMs ev - lastEmitMs st < 1000 then None
          else
            let tsIso = (case get_prop msg ''received_at'' of
                           Some (JStr s) \<Rightarrow> s
                         | _ \<Rightarrow> toISOString (nowDate ev))
            in Some \<lparr> timestamp = tsIso, open_price = lp, high = lp, low = lp, close = lp,
                      volume = None \<rparr>)"

text \<open>\<open>ws.onmessage\<close> (lines 65-107).\<close>

definition onmessage :: "(json \<Rightarrow> number option) \<Rightarrow> live_state \<Rightarrow> tick_event \<Rightarrow> live_state" where
  "onmessage coerce st ev =
     (case new_bar coerce st ev of
        None \<Rightarrow> st
      | Some bar \<Rightarrow> \<lparr> points = setPoints_updater (points st) bar, lastEmitMs = nowMs ev \<rparr>)"

text \<open>The messages of a connection, handled strictly in arrival order.\<close>

fun deliver :: "(json \<Rightarrow> number option) \<Rightarrow> live_state \<Rightarrow> tick_event list \<Rightarrow> live_state" where
  "deliver coerce st [] = st"
| "deliver coerce st (ev # evs) = deliver coerce (onmessage coerce st ev) evs"

text \<open>
  The bars emitted while those messages are handled, each with the \<open>Date.now()\<close> of the
  message it was accepted at, in order.
\<close>

fun emitted :: "(json \<Rightarrow> number option) \<Rightarrow> live_state \<Rightarrow> tick_event list \<Rightarrow> (int \<times> OHLCVBar) list" where
  "emitted coerce st [] = []"
| "emitted coerce st (ev # evs) =
     (case new_bar coerce st ev of
        None \<Rightarrow> emitted coerce st evs
      | Some bar \<Rightarrow> (nowMs ev, bar) # emitted coerce (onmessage coerce st ev) evs)"

section \<open>The backfill-and-merge coordinator\<close>

text \<open>
  \<open>useTodayLiveSeries\<close> (src/lib/hooks/useMLPrediction.ts, lines 101-158).
  \<open>lastBackfillRef\<close> holds \<open>{symbol, key, atMs}\<close> or \<open>null\<close>.
\<close>

record lastBackfill =
  lb_symbol :: string
  lb_key :: string
  lb_atMs :: int

text \<open>Line 121.\<close>

definition shouldRun :: "lastBackfill option \<Rightarrow> string \<Rightarrow> TodayWindow \<Rightarrow> int \<Rightarrow> bool" where
  "shouldRun lastRef symbol window now =
     (case lastRef of
        None \<Rightarrow> True
      | Some l \<Rightarrow> lb_symbol l \<noteq> symbol \<or> lb_key l \<noteq> key window \<or> now - lb_atMs l > 60000)"

text \<open>The payload of \<open>marketDataApi.fetch\<close> (lines 128-133).\<close>

record fetch_request =
  req_symbol :: string
  req_interval :: string
  req_from_date :: string
  req_to_date :: string

text \<open>
  How the awaited \<open>marketDataApi.fetch\<close> settles: resolved with a response whose \<open>error\<close> is
  truthy (\<open>Some\<close>) or not (\<open>None\<close>), or rejected with a reason.
\<close>

datatype 'e fetch_outcome = Resolved "'e option" | Rejected 'e

text \<open>
  The hook instance: the props of the latest render, \<open>backfillError\<close>, \<open>lastBackfillRef\<close>,
  the fetches that have been issued and have not settled yet, and the number of calls of
  \<open>refetchBase\<close> so far.
\<close>

record 'e coordinator =
  cur_enabled :: bool
  cur_symbol :: string
  cur_window :: "TodayWindow option"
  backfillError :: "'e option"
  lastBackfillRef :: "lastBackfill option"
  inflight :: "fetch_request list"
  refetchBase_calls :: nat

definition mounted :: "'e coordinator" where
  "mounted = \<lparr> cur_enabled = False, cur_symbol = [], cur_window = None, backfillError = None,
               lastBackfillRef = None, inflight = [], refetchBase_calls = 0 \<rparr>"

text \<open>
  The effect of lines 113-145, up to the start of the asynchronous part: it runs when a
  render has changed \<open>enabled\<close>, \<open>symbol\<close> or \<open>window\<close>, at \<open>Date.now() = now\<close>. It returns no
  cleanup function.
\<close>

definition backfill_effect ::
  "bool \<Rightarrow> string \<Rightarrow> TodayWindow option \<Rightarrow> int \<Rightarrow> 'e coordinator \<Rightarrow> 'e coordinator" where
  "backfill_effect enabled symbol window now c =
     (let c = c \<lparr> cur_enabled := enabled, cur_symbol := symbol, cur_window := window \<rparr> in
      case window of
        None \<Rightarrow> c \<lparr> backfillError := None \<rparr>
      | Some w \<Rightarrow>
          if \<not> enabled \<or> symbol = [] then c \<lparr> backfillError := None \<rparr>
          else if \<not> shouldRun (lastBackfillRef c) symbol w now then c
          else c \<lparr> lastBackfillRef := Some \<lparr> lb_symbol = symbol, lb_key = key w, lb_atMs = now \<rparr>,
                    inflight := inflight c @
                      [\<lparr> req_symbol = symbol, req_interval = ''5minute'',
                         req_from_date = fetchFromZ w, req_to_date = fetchToZ w \<rparr>] \<rparr>)"

text \<open>
  The rest of the asynchronous function (lines 134-143), run when the awaited fetch
  settles: \<open>setBackfillError\<close>, then \<open>refetchBase()\<close>.
\<close>

definition after_fetch :: "'e fetch_outcome \<Rightarrow> 'e coordinator \<Rightarrow> 'e coordinator" where
  "after_fetch outcome c =
     c \<lparr> backfillError := (case outcome of Resolved err \<Rightarrow> err | Rejected e \<Rightarrow> Some e),
         refetchBase_calls := Suc (refetchBase_calls c) \<rparr>"

datatype 'e hook_event =
    Render bool string "TodayWindow option" int
  | Settle nat "'e fetch_outcome"

text \<open>\<open>Settle i\<close>: the \<open>i\<close>-th of the fetches in flight settles.\<close>

fun hook_step :: "'e coordinator \<Rightarrow> 'e hook_event \<Rightarrow> 'e coordinator" where
  "hook_step c (Render enabled symbol window now) = backfill_effect enabled symbol window now c"
| "hook_step c (Settle i outcome) =
     (if i < length (inflight c)
      then after_fetch outcome (c \<lparr> inflight := take i (inflight c) @ drop (Suc i) (inflight c) \<rparr>)
      else c)"

definition hook_run :: "'e coordinator \<Rightarrow> 'e hook_event list \<Rightarrow> 'e coordinator" where
  "hook_run c evs = foldl hook_step c evs"

text \<open>
  The comparator of line 153. \<open>getTime\<close> stands for \<open>new Date(s).getTime()\<close>, the parse of a
  timestamp by the JavaScript engine (\<open>None\<close> is \<open>NaN\<close>, an invalid date); the difference
  of two numbers is \<open>NaN\<close> as soon as one of them is.
\<close>

definition compare_timestamps ::
  "(string \<Rightarrow> int option) \<Rightarrow> OHLCVBar \<Rightarrow> OHLCVBar \<Rightarrow> int option" where
  "compare_timestamps getTime a b =
     (case (getTime (timestamp a), getTime (timestamp b)) of
        (Some x, Some y) \<Rightarrow> Some (x - y)
      | _ \<Rightarrow> None)"

text \<open>
  \<open>Array.prototype.sort\<close> with a comparator: a stable sort, in which a comparator result of
  \<open>NaN\<close> counts as \<open>0\<close>. For a comparator that is not a consistent ordering (here: one with
  an unparseable timestamp) the language leaves the order of the result to the engine;
  the statements below about order are made for parseable timestamps only.
\<close>

fun sort_insert :: "('a \<Rightarrow> 'a \<Rightarrow> int option) \<Rightarrow> 'a \<Rightarrow> 'a list \<Rightarrow> 'a list" where
  "sort_insert cmp x [] = [x]"
| "sort_insert cmp x (y # ys) =
     (if (case cmp x y of None \<Rightarrow> True | Some v \<Rightarrow> v \<le> 0) then x # y # ys
      else y # sort_insert cmp x ys)"

definition Array_sort :: "('a \<Rightarrow> 'a \<Rightarrow> int option) \<Rightarrow> 'a list \<Rightarrow> 'a list" where
  "Array_sort cmp xs = foldr (sort_insert cmp) xs []"

text \<open>The \<open>useMemo\<close> of lines 147-155; \<open>baseSeries\<close> is \<open>None\<close> for \<open>null\<close> or \<open>undefined\<close>.\<close>

definition data ::
  "(string \<Rightarrow> int option) \<Rightarrow> bool \<Rightarrow> OHLCVBar list option \<Rightarrow> OHLCVBar list \<Rightarrow> OHLCVBar list" where
  "data getTime enabled baseSeries livePoints =
     (let base = (case baseSeries of None \<Rightarrow> [] | Some b \<Rightarrow> b) in
      if \<not> enabled then base
      else if livePoints = [] then base
      else Array_sort (compare_timestamps getTime) (base @ livePoints))"

section \<open>Vocabulary of the statements\<close>

text \<open>
  \<open>maxIsoTime\<close> is 10000-01-01T00:00:00Z: from 1970 up to it \<open>toISOString\<close> writes the
  year with four digits.
\<close>

definition maxIsoTime :: int where
  "maxIsoTime = 253402300800000"

text \<open>
  A clock reading that the statements about the window are made for: not before 1970 and,
  in India, before the year 10000.
\<close>

definition clock_reading :: "int \<Rightarrow> bool" where
  "clock_reading t = (0 \<le> t \<and> t + istOffsetMs < maxIsoTime)"

text \<open>
  03:45 UTC of the calendar day that the instant \<open>now\<close> falls on in India.
\<close>

definition sessionOpen :: "int \<Rightarrow> int" where
  "sessionOpen now = MakeDate (Day (now + istOffsetMs)) (MakeTime 3 45 0 0)"

text \<open>
  A string of \<open>k\<close> decimal digits that reads as the number \<open>v\<close>.
\<close>

definition is_field :: "nat \<Rightarrow> string \<Rightarrow> int \<Rightarrow> bool" where
  "is_field k s v = (length s = k \<and> digits_val 0 s = Some (nat v) \<and> 0 \<le> v \<and> CHR ''Z'' \<notin> set s)"

text \<open>
  The last \<open>MAX_POINTS\<close> elements of a list.
\<close>

definition keep_last :: "'a list \<Rightarrow> 'a list" where
  "keep_last xs = drop (length xs - MAX_POINTS) xs"

text \<open>
  \<open>spaced prev ts\<close>: each time of \<open>ts\<close> is at least a second after the one before it,
  the first at least a second after \<open>prev\<close>.
\<close>

fun spaced :: "int \<Rightarrow> int list \<Rightarrow> bool" where
  "spaced prev [] = True"
| "spaced prev (t # ts) = (1000 \<le> t - prev \<and> spaced t ts)"

text \<open>
  A message that passes the validation of the handler.
\<close>

definition well_formed_tick :: "(json \<Rightarrow> number option) \<Rightarrow> tick_event \<Rightarrow> bool" where
  "well_formed_tick coerce ev = (validated coerce (evt_data ev) \<noteq> None)"

text \<open>
  The instant of a bar, for bars whose timestamp parses, and the series all of whose
  timestamps parse.
\<close>

definition time_of :: "(string \<Rightarrow> int option) \<Rightarrow> OHLCVBar \<Rightarrow> int" where
  "time_of getTime b = (case getTime (timestamp b) of Some t \<Rightarrow> t | None \<Rightarrow> 0)"

definition parseable :: "(string \<Rightarrow> int option) \<Rightarrow> OHLCVBar list \<Rightarrow> bool" where
  "parseable getTime bs = list_all (\<lambda>b. getTime (timestamp b) \<noteq> None) bs"

text \<open>
  The decimal digit of the units of a number, a number written with exactly \<open>k\<close> decimal
  digits, a calendar date written \<open>YYYY-MM-DD\<close>, and an instant written
  \<open>YYYY-MM-DDTHH:mm:ss.sss\<close> in UTC.
\<close>

definition decimal_digit :: "nat \<Rightarrow> char" where
  "decimal_digit n = ''0123456789'' ! (n mod 10)"

fun fixed_digits :: "nat \<Rightarrow> nat \<Rightarrow> string" where
  "fixed_digits 0 n = []"
| "fixed_digits (Suc k) n = fixed_digits k (n div 10) @ [decimal_digit n]"

definition ymd_text :: "int \<Rightarrow> int \<Rightarrow> int \<Rightarrow> string" where
  "ymd_text y m d =
     fixed_digits 4 (nat y) @ ''-'' @ fixed_digits 2 (nat m) @ ''-'' @ fixed_digits 2 (nat d)"

definition iso_stamp :: "int \<Rightarrow> string" where
  "iso_stamp t =
     ymd_text (YearFromTime t) (MonthFromTime t + 1) (DateFromTime t) @ ''T'' @
     fixed_digits 2 (nat (HourFromTime t)) @ '':'' @ fixed_digits 2 (nat (MinFromTime t)) @ '':'' @
     fixed_digits 2 (nat (SecFromTime t)) @ ''.'' @ fixed_digits 3 (nat (msFromTime t))"

section \<open>Example inputs\<close>

definition window0 :: TodayWindow where
  "window0 = \<lparr> fromOffset = ''2023-11-15T03:45:00.000+00:00'',
               toOffset = ''2023-11-15T04:00:00.000+00:00'',
               fetchFromZ = ''2023-11-15T03:45:00.000Z'',
               fetchToZ = ''2023-11-15T04:00:00.000Z'',
               key = ''2023-11-15'' \<rparr>"

definition switch_scenario :: "string hook_event list" where
  "switch_scenario =
     [Render True ''INFY'' (Some window0) 1700020000000,
      Render True ''TCS'' (Some window0) 1700020005000]"

definition bar_at :: "string \<Rightarrow> rat \<Rightarrow> OHLCVBar" where
  "bar_at ts p = \<lparr> timestamp = ts, open_price = Finite p, high = Finite p, low = Finite p,
                    close = Finite p, volume = None \<rparr>"

definition tick_msg :: "json \<Rightarrow> json" where
  "tick_msg price =
     JObj [(''type'', JStr ''ticks''), (''received_at'', JStr ''2023-11-15T03:55:00.000Z''),
           (''ticks'', JArr [JObj [(''last_price'', price)]])]"

definition tick_at :: "int \<Rightarrow> tick_event" where
  "tick_at t = \<lparr> evt_data = Some (tick_msg (JNum (Finite (5001 / 2)))), nowMs = t, nowDate = t \<rparr>"

text \<open>
  A conversion for the examples: every string, array and object converts to \<open>NaN\<close>.
\<close>

definition no_coercion :: "json \<Rightarrow> number option" where
  "no_coercion v = Some NaN"

text \<open>
  \<open>n\<close> messages 5 ms apart, and \<open>n\<close> messages a second apart.
\<close>

definition burst :: "nat \<Rightarrow> tick_event list" where
  "burst n = map (\<lambda>k. tick_at (1700020500000 + 5 * int k)) [0..<n]"

definition spread :: "nat \<Rightarrow> tick_event list" where
  "spread n = map (\<lambda>k. tick_at (1700020500000 + 1000 * int k)) [0..<n]"

section \<open>Facts about the calendar\<close>

lemma DayFromYear_mono_nat: "DayFromYear y \<le> DayFromYear (y + int n)"
proof (induction n)
  case 0
  show ?case by simp
next
  case (Suc n)
  have "DayFromYear (y + int (Suc n)) = DayFromYear (y + int n + 1)" by (simp add: algebra_simps)
  also have "\<dots> = DayFromYear (y + int n) + DaysInYear (y + int n)" by (rule DayFromYear_Suc)
  finally show ?case using Suc DaysInYear_bounds [of "y + int n"] by linarith
qed

lemma DayFromYear_mono: "y \<le> z \<Longrightarrow> DayFromYear y \<le> DayFromYear z"
  using DayFromYear_mono_nat [of y "nat (z - y)"] by simp

lemma DayFromYear_less_imp: "DayFromYear y < DayFromYear z \<Longrightarrow> y < z"
  using DayFromYear_mono [of z y] by linarith

lemma DayFromYear_upper: "DayFromYear (1970 + int n) \<le> 366 * int n"
proof (induction n)
  case 0
  show ?case by (simp add: DayFromYear_def)
next
  case (Suc n)
  have "DayFromYear (1970 + int (Suc n)) = DayFromYear (1970 + int n + 1)" by (simp add: algebra_simps)
  also have "\<dots> = DayFromYear (1970 + int n) + DaysInYear (1970 + int n)"
    by (rule DayFromYear_Suc)
  finally show ?case using Suc DaysInYear_bounds [of "1970 + int n"] by simp
qed

lemma DayFromYear_lower: "DayFromYear (1970 - int n) \<le> - 365 * int n"
proof (induction n)
  case 0
  show ?case by (simp add: DayFromYear_def)
next
  case (Suc n)
  have "DayFromYear (1970 - int n) = DayFromYear (1970 - int (Suc n) + 1)" by simp
  also have "\<dots> = DayFromYear (1970 - int (Suc n)) + DaysInYear (1970 - int (Suc n))"
    by (rule DayFromYear_Suc)
  finally show ?case using Suc DaysInYear_bounds [of "1970 - int (Suc n)"] by simp
qed

lemma year_search_spec:
  "DayFromYear y \<le> d \<Longrightarrow>
   DayFromYear (year_search d y) \<le> d \<and> d < DayFromYear (year_search d y + 1)"
proof (induction d y rule: year_search.induct)
  case (1 d y)
  show ?case
  proof (cases "DayFromYear (y + 1) \<le> d")
    case True
    with "1.IH" show ?thesis by (simp add: year_search.simps [of d y])
  next
    case False
    with "1.prems" show ?thesis by (simp add: year_search.simps [of d y])
  qed
qed

lemma YearFromDay_spec:
  "DayFromYear (YearFromDay d) \<le> d \<and> d < DayFromYear (YearFromDay d + 1)"
proof (cases "0 \<le> d")
  case True
  have "DayFromYear (1970 + int (nat (d div 366))) \<le> 366 * int (nat (d div 366))"
    by (rule DayFromYear_upper)
  moreover have "0 \<le> d div 366" using True by (simp add: pos_imp_zdiv_nonneg_iff)
  moreover have "366 * (d div 366) \<le> d" using mult_div_mod_eq [of 366 d] pos_mod_sign [of 366 d] by linarith
  ultimately have "DayFromYear (1970 + d div 366) \<le> d" by simp
  from year_search_spec [OF this] show ?thesis using True by (simp add: YearFromDay_def)
next
  case False
  have neg: "d div 365 \<le> 0" using False zdiv_mono1 [of d 0 365] by simp
  have "DayFromYear (1970 - int (nat (- (d div 365)))) \<le> - 365 * int (nat (- (d div 365)))"
    by (rule DayFromYear_lower)
  moreover have "365 * (d div 365) \<le> d" using mult_div_mod_eq [of 365 d] pos_mod_sign [of 365 d] by linarith
  ultimately have "DayFromYear (1970 + d div 365) \<le> d" using neg by simp
  from year_search_spec [OF this] show ?thesis using False by (simp add: YearFromDay_def)
qed

lemma DayWithinYear_range:
  "0 \<le> DayWithinYear t \<and> DayWithinYear t < DaysInYear (YearFromTime t)"
  using YearFromDay_spec [of "Day t"] DayFromYear_Suc [of "YearFromTime t"]
  by (simp add: DayWithinYear_def YearFromTime_def)

lemma MonthFromTime_range: "0 \<le> MonthFromTime t \<and> MonthFromTime t \<le> 11"
  by (simp add: MonthFromTime_def MonthOfDay_def)

lemma MakeDay_of_time: "MakeDay (YearFromTime t) (MonthFromTime t) (DateFromTime t) = Day t"
proof -
  have m: "MonthFromTime t div 12 = 0" "MonthFromTime t mod 12 = MonthFromTime t"
    using MonthFromTime_range [of t] by simp_all
  show ?thesis
    by (simp add: MakeDay_def m DateFromTime_def InLeapYear_def DayWithinYear_def)
qed

lemma time_fields_sum:
  fixes h mi sec ms :: int
  assumes "m1 = 1000 * sec + ms" and "m2 = 60000 * mi + m1" and "m3 = 3600000 * h + m2"
  shows "h * 3600000 + mi * 60000 + sec * 1000 + ms = m3"
  using assms by simp

lemma MakeTime_of_time:
  "MakeTime (HourFromTime t) (MinFromTime t) (SecFromTime t) (msFromTime t) = TimeWithinDay t"
proof -
  have a: "t mod 60000 = 1000 * (t div 1000 mod 60) + t mod 1000"
    using zmod_zmult2_eq [of 60 t 1000] by simp
  have b: "t mod 3600000 = 60000 * (t div 60000 mod 60) + t mod 60000"
    using zmod_zmult2_eq [of 60 t 60000] by simp
  have c: "t mod 86400000 = 3600000 * (t div 3600000 mod 24) + t mod 3600000"
    using zmod_zmult2_eq [of 24 t 3600000] by simp
  show ?thesis
    unfolding MakeTime_def HourFromTime_def MinFromTime_def SecFromTime_def msFromTime_def
      TimeWithinDay_def msPerDay_def
    by (rule time_fields_sum [OF a b c])
qed

lemma MakeDate_of_time: "MakeDate (Day t) (TimeWithinDay t) = t"
  by (simp add: MakeDate_def Day_def TimeWithinDay_def)

lemma day_in_month:
  fixes d leap :: int
  assumes "0 \<le> d" and "d < 365 + leap" and "leap = 0 \<or> leap = 1"
  shows "1 \<le> d - month_start (MonthOfDay d leap) leap + 1 \<and>
         d - month_start (MonthOfDay d leap) leap + 1 \<le> 31"
  using assms by (auto simp: MonthOfDay_def month_start_def)

lemma DateFromTime_range: "1 \<le> DateFromTime t \<and> DateFromTime t \<le> 31"
proof -
  have "DayWithinYear t < 365 + InLeapYear t"
    using DayWithinYear_range [of t] DaysInYear_bounds [of "YearFromTime t"]
    by (simp add: InLeapYear_def)
  moreover have "InLeapYear t = 0 \<or> InLeapYear t = 1" by (simp add: InLeapYear_def)
  ultimately show ?thesis
    unfolding DateFromTime_def MonthFromTime_def
    using day_in_month [of "DayWithinYear t" "InLeapYear t"] DayWithinYear_range [of t]
    by blast
qed

lemma Day_range: "0 \<le> t \<Longrightarrow> t < maxIsoTime \<Longrightarrow> 0 \<le> Day t \<and> Day t < 2932897"
  by (simp add: Day_def msPerDay_def maxIsoTime_def pos_imp_zdiv_nonneg_iff div_less_iff_less_mult)

lemma YearFromDay_range:
  assumes "0 \<le> d" and "d < 2932897"
  shows "1970 \<le> YearFromDay d \<and> YearFromDay d \<le> 9999"
proof -
  have a: "DayFromYear 1970 = 0" and b: "DayFromYear 10000 = 2932897"
    by (simp_all add: DayFromYear_def)
  have "DayFromYear 1970 < DayFromYear (YearFromDay d + 1)"
    using YearFromDay_spec [of d] assms a by linarith
  then have "1970 < YearFromDay d + 1" by (rule DayFromYear_less_imp)
  moreover have "DayFromYear (YearFromDay d) < DayFromYear 10000"
    using YearFromDay_spec [of d] assms b by linarith
  then have "YearFromDay d < 10000" by (rule DayFromYear_less_imp)
  ultimately show ?thesis by simp
qed

lemma YearFromTime_range:
  "0 \<le> t \<Longrightarrow> t < maxIsoTime \<Longrightarrow> 1970 \<le> YearFromTime t \<and> YearFromTime t \<le> 9999"
  using Day_range [of t] YearFromDay_range [of "Day t"] by (simp add: YearFromTime_def)

section \<open>Facts about the formatting of numbers and dates\<close>

lemma digit_val_digit_char: "k < 10 \<Longrightarrow> digit_val (digit_char k) = Some k"
  by (simp add: digit_val_def digit_char_def Let_def)

lemma digit_val_zero: "digit_val CHR ''0'' = Some 0"
  by (simp add: digit_val_def)

lemma digit_val_Z: "digit_val CHR ''Z'' = None"
  by (simp add: digit_val_def)

lemma digits_val_append:
  "digits_val acc (xs @ ys) =
     (case digits_val acc xs of None \<Rightarrow> None | Some a \<Rightarrow> digits_val a ys)"
  by (induction xs arbitrary: acc) (auto split: option.splits)

lemma digits_val_dec_nat:
  "digits_val acc (dec_nat n) = Some (acc * 10 ^ length (dec_nat n) + n)"
proof (induction n arbitrary: acc rule: dec_nat.induct)
  case (1 n)
  show ?case
  proof (cases "n < 10")
    case True
    then show ?thesis by (simp add: dec_nat.simps [of n] digit_val_digit_char)
  next
    case False
    have m: "n mod 10 < 10" by simp
    have "digits_val acc (dec_nat n) =
        digits_val acc (dec_nat (n div 10) @ [digit_char (n mod 10)])"
      using False by (simp add: dec_nat.simps [of n])
    also have "\<dots> = Some (10 * (acc * 10 ^ length (dec_nat (n div 10)) + n div 10) + n mod 10)"
      using "1.IH" [OF False, of acc] by (simp add: digits_val_append digit_val_digit_char [OF m])
    also have "\<dots> = Some (acc * 10 ^ length (dec_nat n) + n)"
      using False by (simp add: dec_nat.simps [of n] algebra_simps)
    finally show ?thesis .
  qed
qed

lemma digits_val_zeros: "digits_val 0 (replicate k CHR ''0'' @ s) = digits_val 0 s"
  by (induction k) (simp_all add: digit_val_zero)

lemma length_dec_nat: "n < 10 ^ k \<Longrightarrow> 0 < k \<Longrightarrow> length (dec_nat n) \<le> k"
proof (induction n arbitrary: k rule: dec_nat.induct)
  case (1 n)
  show ?case
  proof (cases "n < 10")
    case True
    then show ?thesis using "1.prems" by (simp add: dec_nat.simps [of n])
  next
    case False
    obtain j where j: "k = Suc j" using "1.prems" by (cases k) auto
    have "0 < j" using False "1.prems" j by (cases j) auto
    moreover have "n div 10 < 10 ^ j" using "1.prems" j by (simp add: less_mult_imp_div_less)
    ultimately have "length (dec_nat (n div 10)) \<le> j" using "1.IH" [OF False] by simp
    then show ?thesis using False j by (simp add: dec_nat.simps [of n])
  qed
qed

lemma dec_nat_nonempty: "Suc 0 \<le> length (dec_nat n)"
  by (cases "n < 10") (simp_all add: dec_nat.simps [of n])

lemma dec_nat_no_Z: "CHR ''Z'' \<notin> set (dec_nat n)"
proof (induction n rule: dec_nat.induct)
  case (1 n)
  have d: "digit_char k \<noteq> CHR ''Z''" if "k < 10" for k
    using digit_val_digit_char [OF that] digit_val_Z by auto
  show ?case
  proof (cases "n < 10")
    case True
    then show ?thesis using d [of n] by (simp add: dec_nat.simps [of n])
  next
    case False
    then show ?thesis using "1.IH" d [of "n mod 10"] by (simp add: dec_nat.simps [of n])
  qed
qed

lemma padStart_field:
  assumes "0 \<le> i" and "i < 10 ^ k" and "0 < k"
  shows "is_field k (padStart k CHR ''0'' (String_int i)) i"
proof -
  have s: "String_int i = dec_nat (nat i)" using assms by (simp add: String_int_def)
  have "nat i < 10 ^ k" using assms by (simp add: nat_less_iff)
  then have l: "length (dec_nat (nat i)) \<le> k" using assms by (simp add: length_dec_nat)
  then have "length (padStart k CHR ''0'' (dec_nat (nat i))) = k" by (simp add: padStart_def)
  moreover have "digits_val 0 (padStart k CHR ''0'' (dec_nat (nat i))) = Some (nat i)"
    by (simp add: padStart_def digits_val_zeros digits_val_dec_nat)
  moreover have "CHR ''Z'' \<notin> set (padStart k CHR ''0'' (dec_nat (nat i)))"
    using dec_nat_no_Z by (auto simp: padStart_def)
  ultimately show ?thesis using assms s by (simp add: is_field_def)
qed

lemma zone_offset_Z: "zone_offset ''Z'' = Some 0"
  by (simp add: zone_offset_def)

lemma zone_offset_plus: "zone_offset ''+00:00'' = Some 0"
  by (simp add: zone_offset_def num_field_def digit_val_def)

lemma field_chars4: "is_field 4 s v \<Longrightarrow> \<exists>a b c d. s = [a, b, c, d]"
  by (auto simp: is_field_def length_Suc_conv eval_nat_numeral)

lemma field_chars3: "is_field 3 s v \<Longrightarrow> \<exists>a b c. s = [a, b, c]"
  by (auto simp: is_field_def length_Suc_conv eval_nat_numeral)

lemma field_chars2: "is_field 2 s v \<Longrightarrow> \<exists>a b. s = [a, b]"
  by (auto simp: is_field_def length_Suc_conv eval_nat_numeral)

lemma iso_instant_assembled:
  assumes "is_field 4 Y y" and "is_field 2 Mo mo" and "is_field 2 D d" and "is_field 2 H h"
    and "is_field 2 Mi mi" and "is_field 2 S sec" and "is_field 3 Ms ms"
    and "zone_offset Z = Some off" and "Z \<noteq> []"
  shows "iso_instant (Y @ ''-'' @ Mo @ ''-'' @ D @ ''T'' @ H @ '':'' @ Mi @ '':'' @ S @ ''.'' @ Ms @ Z)
         = Some (MakeDate (MakeDay y (mo - 1) d) (MakeTime h mi sec ms) - off)"
proof -
  obtain y1 y2 y3 y4 where Y: "Y = [y1, y2, y3, y4]" using field_chars4 [OF assms(1)] by blast
  obtain m1 m2 where Mo: "Mo = [m1, m2]" using field_chars2 [OF assms(2)] by blast
  obtain d1 d2 where D: "D = [d1, d2]" using field_chars2 [OF assms(3)] by blast
  obtain h1 h2 where H: "H = [h1, h2]" using field_chars2 [OF assms(4)] by blast
  obtain n1 n2 where Mi: "Mi = [n1, n2]" using field_chars2 [OF assms(5)] by blast
  obtain s1 s2 where S: "S = [s1, s2]" using field_chars2 [OF assms(6)] by blast
  obtain f1 f2 f3 where Ms: "Ms = [f1, f2, f3]" using field_chars3 [OF assms(7)] by blast
  have vals: "digits_val 0 [y1, y2, y3, y4] = Some (nat y)" "digits_val 0 [m1, m2] = Some (nat mo)"
    "digits_val 0 [d1, d2] = Some (nat d)" "digits_val 0 [h1, h2] = Some (nat h)"
    "digits_val 0 [n1, n2] = Some (nat mi)" "digits_val 0 [s1, s2] = Some (nat sec)"
    "digits_val 0 [f1, f2, f3] = Some (nat ms)"
    and nn: "0 \<le> y" "0 \<le> mo" "0 \<le> d" "0 \<le> h" "0 \<le> mi" "0 \<le> sec" "0 \<le> ms"
    using assms(1-7) by (simp_all add: is_field_def Y Mo D H Mi S Ms)
  have len: "\<not> length (Y @ ''-'' @ Mo @ ''-'' @ D @ ''T'' @ H @ '':'' @ Mi @ '':'' @ S @ ''.'' @ Ms @ Z) < 24"
    using assms(9) by (cases Z) (simp_all add: Y Mo D H Mi S Ms)
  show ?thesis
    unfolding iso_instant_def num_field_def
    using len nn assms(8)
    by (simp add: Y Mo D H Mi S Ms vals del: digits_val.simps)
qed

lemma year_field:
  assumes "1970 \<le> y" and "y \<le> 9999"
  shows "is_field 4 (iso_year y) y" and "is_field 4 (String_int y) y"
proof -
  have f: "is_field 4 (padStart 4 CHR ''0'' (String_int y)) y"
    using assms by (intro padStart_field) simp_all
  then show "is_field 4 (iso_year y) y" using assms by (simp add: iso_year_def)
  have "String_int y = dec_nat (nat y)" using assms by (simp add: String_int_def)
  moreover have "4 \<le> length (dec_nat (nat y))"
  proof -
    obtain n where n: "nat y = n" "1000 \<le> n" using assms by simp
    have "\<not> n < 10" "\<not> n div 10 < 10" "\<not> n div 10 div 10 < 10" using n(2) by simp_all
    then show ?thesis
      unfolding n(1)
      by (simp add: dec_nat.simps [of n] dec_nat.simps [of "n div 10"]
            dec_nat.simps [of "n div 10 div 10"] dec_nat_nonempty)
  qed
  ultimately have "padStart 4 CHR ''0'' (String_int y) = String_int y"
    by (simp add: padStart_def)
  with f show "is_field 4 (String_int y) y" by simp
qed

lemma pad2_field: "0 \<le> i \<Longrightarrow> i < 100 \<Longrightarrow> is_field 2 (pad2 i) i"
  unfolding pad2_def by (intro padStart_field) simp_all

lemma pad3_field: "0 \<le> i \<Longrightarrow> i < 1000 \<Longrightarrow> is_field 3 (pad3 i) i"
  unfolding pad3_def by (intro padStart_field) simp_all

lemma replace_first_skip:
  "c \<notin> set xs \<Longrightarrow> replace_first c r (xs @ ys) = xs @ replace_first c r ys"
  by (induction xs) auto

lemma toISOString_fields:
  assumes "0 \<le> t" and "t < maxIsoTime"
  shows "is_field 4 (iso_year (YearFromTime t)) (YearFromTime t)"
    and "is_field 2 (pad2 (MonthFromTime t + 1)) (MonthFromTime t + 1)"
    and "is_field 2 (pad2 (DateFromTime t)) (DateFromTime t)"
    and "is_field 2 (pad2 (HourFromTime t)) (HourFromTime t)"
    and "is_field 2 (pad2 (MinFromTime t)) (MinFromTime t)"
    and "is_field 2 (pad2 (SecFromTime t)) (SecFromTime t)"
    and "is_field 3 (pad3 (msFromTime t)) (msFromTime t)"
proof -
  show "is_field 4 (iso_year (YearFromTime t)) (YearFromTime t)"
    using YearFromTime_range [OF assms] by (simp add: year_field)
  show "is_field 2 (pad2 (MonthFromTime t + 1)) (MonthFromTime t + 1)"
    using MonthFromTime_range [of t] by (intro pad2_field) simp_all
  show "is_field 2 (pad2 (DateFromTime t)) (DateFromTime t)"
    using DateFromTime_range [of t] by (intro pad2_field) simp_all
  show "is_field 2 (pad2 (HourFromTime t)) (HourFromTime t)"
    by (intro pad2_field) (simp_all add: HourFromTime_def)
  show "is_field 2 (pad2 (MinFromTime t)) (MinFromTime t)"
    by (intro pad2_field) (simp_all add: MinFromTime_def)
  show "is_field 2 (pad2 (SecFromTime t)) (SecFromTime t)"
    by (intro pad2_field) (simp_all add: SecFromTime_def)
  show "is_field 3 (pad3 (msFromTime t)) (msFromTime t)"
    by (intro pad3_field) (simp_all add: msFromTime_def)
qed

lemma iso_instant_toISOString:
  assumes "0 \<le> t" and "t < maxIsoTime"
  shows "iso_instant (toISOString t) = Some t"
proof -
  note f = toISOString_fields [OF assms]
  have "iso_instant (toISOString t) =
      Some (MakeDate (MakeDay (YearFromTime t) (MonthFromTime t + 1 - 1) (DateFromTime t))
              (MakeTime (HourFromTime t) (MinFromTime t) (SecFromTime t) (msFromTime t)) - 0)"
    unfolding toISOString_def
    by (rule iso_instant_assembled [OF f zone_offset_Z]) simp
  then show ?thesis by (simp add: MakeDay_of_time MakeTime_of_time MakeDate_of_time)
qed

lemma replace_Z_toISOString:
  assumes "0 \<le> t" and "t < maxIsoTime"
  shows "replace_first CHR ''Z'' ''+00:00'' (toISOString t) =
    iso_year (YearFromTime t) @ ''-'' @ pad2 (MonthFromTime t + 1) @ ''-'' @
     pad2 (DateFromTime t) @ ''T'' @ pad2 (HourFromTime t) @ '':'' @ pad2 (MinFromTime t) @
     '':'' @ pad2 (SecFromTime t) @ ''.'' @ pad3 (msFromTime t) @ ''+00:00''"
  using toISOString_fields [OF assms]
  by (simp add: toISOString_def is_field_def replace_first_skip)

lemma iso_instant_offset_form:
  assumes "0 \<le> t" and "t < maxIsoTime"
  shows "iso_instant (replace_first CHR ''Z'' ''+00:00'' (toISOString t)) = Some t"
proof -
  note f = toISOString_fields [OF assms]
  have "iso_instant (replace_first CHR ''Z'' ''+00:00'' (toISOString t)) =
      Some (MakeDate (MakeDay (YearFromTime t) (MonthFromTime t + 1 - 1) (DateFromTime t))
              (MakeTime (HourFromTime t) (MinFromTime t) (SecFromTime t) (msFromTime t)) - 0)"
    unfolding replace_Z_toISOString [OF assms]
    by (rule iso_instant_assembled [OF f zone_offset_plus]) simp
  then show ?thesis by (simp add: MakeDay_of_time MakeTime_of_time MakeDate_of_time)
qed

lemma zero_fields: "is_field 2 ''00'' 0" "is_field 3 ''000'' 0"
  by (simp_all add: is_field_def digit_val_def)

lemma iso_instant_examples:
  "iso_instant ''2023-11-15T03:55:00.000Z'' = Some 1700020500000"
  "iso_instant ''2023-11-15T03:57:30.000Z'' = Some 1700020650000"
  "iso_instant ''2023-11-15T04:00:00.000Z'' = Some 1700020800000"
  by (simp_all add: iso_instant_def num_field_def zone_offset_def digit_val_def MakeDate_def
        MakeDay_def MakeTime_def DayFromYear_def DaysInYear_def month_start_def msPerDay_def)

lemma digit_chars: "map digit_char [0..<10] = ''0123456789''"
  by code_simp

lemma digit_char_decimal: "digit_char n = decimal_digit n" if "n < 10"
proof -
  have "digit_char n = map digit_char [0..<10] ! n" using that by simp
  then show ?thesis using that by (simp only: digit_chars decimal_digit_def mod_less)
qed

lemma fixed_digits_zero: "fixed_digits k 0 = replicate k CHR ''0''"
  by (induction k) (simp_all add: decimal_digit_def replicate_append_same)

lemma padStart_snoc:
  "length xs \<le> k \<Longrightarrow> padStart (Suc k) c (xs @ [x]) = padStart k c xs @ [x]"
  by (simp add: padStart_def)

lemma padStart_fixed_digits:
  "n < 10 ^ k \<Longrightarrow> 0 < k \<Longrightarrow> padStart k CHR ''0'' (dec_nat n) = fixed_digits k n"
proof (induction k arbitrary: n)
  case 0
  then show ?case by simp
next
  case (Suc k)
  show ?case
  proof (cases "n < 10")
    case True
    then have "dec_nat n = [digit_char n]" by (simp add: dec_nat.simps [of n])
    moreover have "n div 10 = 0" using True by simp
    moreover have "decimal_digit n = digit_char n" using True by (simp add: digit_char_decimal)
    ultimately show ?thesis by (simp add: padStart_def fixed_digits_zero)
  next
    case False
    have k: "0 < k" using False Suc.prems by (cases k) auto
    have d: "n div 10 < 10 ^ k" using Suc.prems by (simp add: less_mult_imp_div_less)
    have l: "length (dec_nat (n div 10)) \<le> k" using d k by (rule length_dec_nat)
    have m: "digit_char (n mod 10) = decimal_digit n"
      by (simp add: digit_char_decimal decimal_digit_def)
    have "dec_nat n = dec_nat (n div 10) @ [digit_char (n mod 10)]"
      using False by (simp add: dec_nat.simps [of n])
    then have "padStart (Suc k) CHR ''0'' (dec_nat n) =
        padStart k CHR ''0'' (dec_nat (n div 10)) @ [digit_char (n mod 10)]"
      using l by (simp add: padStart_snoc)
    then show ?thesis using Suc.IH [OF d k] m by simp
  qed
qed

lemma pad2_fixed: "0 \<le> i \<Longrightarrow> i < 100 \<Longrightarrow> pad2 i = fixed_digits 2 (nat i)"
  using padStart_fixed_digits [of "nat i" 2] by (simp add: pad2_def String_int_def nat_less_iff)

lemma pad3_fixed: "0 \<le> i \<Longrightarrow> i < 1000 \<Longrightarrow> pad3 i = fixed_digits 3 (nat i)"
  using padStart_fixed_digits [of "nat i" 3] by (simp add: pad3_def String_int_def nat_less_iff)

lemma String_int_year:
  assumes "1970 \<le> y" and "y \<le> 9999"
  shows "String_int y = fixed_digits 4 (nat y)" and "iso_year y = fixed_digits 4 (nat y)"
proof -
  have p: "padStart 4 CHR ''0'' (String_int y) = fixed_digits 4 (nat y)"
    using assms padStart_fixed_digits [of "nat y" 4] by (simp add: String_int_def nat_less_iff)
  then show "iso_year y = fixed_digits 4 (nat y)" using assms by (simp add: iso_year_def)
  have "is_field 4 (String_int y) y" using assms by (rule year_field(2))
  then have "length (String_int y) = 4" by (simp add: is_field_def)
  then have "padStart 4 CHR ''0'' (String_int y) = String_int y" by (simp add: padStart_def)
  with p show "String_int y = fixed_digits 4 (nat y)" by simp
qed

lemma fixed_digits_unfold:
  "fixed_digits 2 n = [decimal_digit (n div 10), decimal_digit n]"
  "fixed_digits 3 n = [decimal_digit (n div 100), decimal_digit (n div 10), decimal_digit n]"
  "fixed_digits 4 n = [decimal_digit (n div 1000), decimal_digit (n div 100),
     decimal_digit (n div 10), decimal_digit n]"
proof -
  have e: "(2::nat) = Suc (Suc 0)" "(3::nat) = Suc (Suc (Suc 0))"
    "(4::nat) = Suc (Suc (Suc (Suc 0)))" by simp_all
  show "fixed_digits 2 n = [decimal_digit (n div 10), decimal_digit n]"
    unfolding e by simp
  show "fixed_digits 3 n = [decimal_digit (n div 100), decimal_digit (n div 10), decimal_digit n]"
    unfolding e by (simp add: div_mult2_eq [symmetric])
  show "fixed_digits 4 n = [decimal_digit (n div 1000), decimal_digit (n div 100),
     decimal_digit (n div 10), decimal_digit n]"
    unfolding e by (simp add: div_mult2_eq [symmetric])
qed

lemma fixed_examples:
  "fixed_digits 2 3 = ''03''" "fixed_digits 2 45 = ''45''" "fixed_digits 2 0 = ''00''"
  "fixed_digits 3 0 = ''000''" "ymd_text 2023 11 15 = ''2023-11-15''"
  by (simp_all add: fixed_digits_unfold decimal_digit_def ymd_text_def)

lemma decimal_digit_mem: "decimal_digit n \<in> set ''0123456789''"
  unfolding decimal_digit_def by (rule nth_mem) simp

lemma fixed_digits_chars: "set (fixed_digits k n) \<subseteq> set ''0123456789''"
  by (induction k arbitrary: n) (use decimal_digit_mem in auto)

lemma fixed_digits_no_Z: "CHR ''Z'' \<notin> set (fixed_digits k n)"
  using fixed_digits_chars [of k n] by auto

lemma iso_stamp_no_Z: "CHR ''Z'' \<notin> set (iso_stamp t)"
  by (simp add: iso_stamp_def ymd_text_def fixed_digits_no_Z)

lemma toISOString_stamp:
  assumes "0 \<le> t" and "t < maxIsoTime"
  shows "toISOString t = iso_stamp t @ ''Z''"
proof -
  have y: "iso_year (YearFromTime t) = fixed_digits 4 (nat (YearFromTime t))"
    using YearFromTime_range [OF assms] by (simp add: String_int_year)
  have m: "pad2 (MonthFromTime t + 1) = fixed_digits 2 (nat (MonthFromTime t + 1))"
    using MonthFromTime_range [of t] by (intro pad2_fixed) simp_all
  have d: "pad2 (DateFromTime t) = fixed_digits 2 (nat (DateFromTime t))"
    using DateFromTime_range [of t] by (intro pad2_fixed) simp_all
  have h: "pad2 (HourFromTime t) = fixed_digits 2 (nat (HourFromTime t))"
    by (intro pad2_fixed) (simp_all add: HourFromTime_def)
  have mi: "pad2 (MinFromTime t) = fixed_digits 2 (nat (MinFromTime t))"
    by (intro pad2_fixed) (simp_all add: MinFromTime_def)
  have s: "pad2 (SecFromTime t) = fixed_digits 2 (nat (SecFromTime t))"
    by (intro pad2_fixed) (simp_all add: SecFromTime_def)
  have ms: "pad3 (msFromTime t) = fixed_digits 3 (nat (msFromTime t))"
    by (intro pad3_fixed) (simp_all add: msFromTime_def)
  show ?thesis
    unfolding toISOString_def iso_stamp_def ymd_text_def y m d h mi s ms by simp
qed

lemma replace_Z_stamp:
  "replace_first CHR ''Z'' ''+00:00'' (iso_stamp t @ ''Z'') = iso_stamp t @ ''+00:00''"
  using iso_stamp_no_Z [of t] by (simp add: replace_first_skip)

section \<open>Facts about the session window calculator\<close>

lemma clock_reading_iso: "clock_reading t \<Longrightarrow> 0 \<le> t \<and> t < maxIsoTime"
  by (simp add: clock_reading_def istOffsetMs_def)

lemma clock_reading_ist:
  "clock_reading t \<Longrightarrow> 0 \<le> t + istOffsetMs \<and> t + istOffsetMs < maxIsoTime"
  by (simp add: clock_reading_def istOffsetMs_def)

lemma sessionOpen_range:
  assumes "clock_reading now"
  shows "0 \<le> sessionOpen now \<and> sessionOpen now < maxIsoTime"
proof -
  have "0 \<le> Day (now + istOffsetMs) \<and> Day (now + istOffsetMs) < 2932897"
    using clock_reading_ist [OF assms] by (simp add: Day_range)
  then show ?thesis
    by (simp add: sessionOpen_def MakeDate_def MakeTime_def msPerDay_def maxIsoTime_def)
qed

lemma Date_UTC_open:
  assumes "clock_reading now"
  shows "(case kolkata_parts now of (y, m, d) \<Rightarrow> Date_UTC y (m - 1) d 3 45 0)
         = Some (sessionOpen now)"
proof -
  let ?lt = "now + istOffsetMs"
  have y: "1970 \<le> YearFromTime ?lt" 
    using clock_reading_ist [OF assms] YearFromTime_range [of ?lt] by simp
  then have yy: "\<not> (0 \<le> YearFromTime ?lt \<and> YearFromTime ?lt \<le> 99)" by simp
  have r: "0 \<le> sessionOpen now \<and> sessionOpen now < maxIsoTime"
    by (rule sessionOpen_range [OF assms])
  then have "TimeClip (sessionOpen now) = Some (sessionOpen now)"
    by (simp add: TimeClip_def maxIsoTime_def)
  then show ?thesis
    by (simp add: kolkata_parts_def Let_def Date_UTC_def yy MakeDay_of_time sessionOpen_def)
qed

lemma key_denotes_day:
  assumes "clock_reading now"
  shows "(case kolkata_parts now of (y, m, d) \<Rightarrow>
           iso_instant ((String_int y @ ''-'' @ padStart 2 CHR ''0'' (String_int m) @ ''-'' @
             padStart 2 CHR ''0'' (String_int d)) @ ''T00:00:00.000Z''))
         = Some (MakeDate (Day (now + istOffsetMs)) 0)"
    and "(case kolkata_parts now of (y, m, d) \<Rightarrow>
           length (String_int y @ ''-'' @ padStart 2 CHR ''0'' (String_int m) @ ''-'' @
             padStart 2 CHR ''0'' (String_int d))) = 10"
proof -
  let ?lt = "now + istOffsetMs"
  note r = clock_reading_ist [OF assms]
  have yr: "1970 \<le> YearFromTime ?lt \<and> YearFromTime ?lt \<le> 9999"
    using r YearFromTime_range [of ?lt] by simp
  then have fy: "is_field 4 (String_int (YearFromTime ?lt)) (YearFromTime ?lt)"
    by (simp add: year_field)
  have fm: "is_field 2 (pad2 (MonthFromTime ?lt + 1)) (MonthFromTime ?lt + 1)"
    and fd: "is_field 2 (pad2 (DateFromTime ?lt)) (DateFromTime ?lt)"
    using r toISOString_fields [of ?lt] by simp_all
  have "iso_instant (String_int (YearFromTime ?lt) @ ''-'' @ pad2 (MonthFromTime ?lt + 1) @ ''-'' @
      pad2 (DateFromTime ?lt) @ ''T'' @ ''00'' @ '':'' @ ''00'' @ '':'' @ ''00'' @ ''.'' @ ''000'' @ ''Z'')
    = Some (MakeDate (MakeDay (YearFromTime ?lt) (MonthFromTime ?lt + 1 - 1) (DateFromTime ?lt))
        (MakeTime 0 0 0 0) - 0)"
    by (rule iso_instant_assembled [OF fy fm fd zero_fields(1) zero_fields(1) zero_fields(1)
          zero_fields(2) zone_offset_Z]) simp
  then show "(case kolkata_parts now of (y, m, d) \<Rightarrow>
           iso_instant ((String_int y @ ''-'' @ padStart 2 CHR ''0'' (String_int m) @ ''-'' @
             padStart 2 CHR ''0'' (String_int d)) @ ''T00:00:00.000Z''))
         = Some (MakeDate (Day (now + istOffsetMs)) 0)"
    by (simp add: kolkata_parts_def Let_def pad2_def MakeDay_of_time MakeTime_def)
  show "(case kolkata_parts now of (y, m, d) \<Rightarrow>
           length (String_int y @ ''-'' @ padStart 2 CHR ''0'' (String_int m) @ ''-'' @
             padStart 2 CHR ''0'' (String_int d))) = 10"
    using fy fm fd by (simp add: kolkata_parts_def Let_def pad2_def is_field_def)
qed

lemma computeTodayWindow_fields:
  assumes "clock_reading now1"
  shows "\<exists>w. computeTodayWindow now1 now2 = Some w \<and>
          fetchFromZ w = toISOString (sessionOpen now1) \<and>
          fromOffset w = replace_first CHR ''Z'' ''+00:00'' (toISOString (sessionOpen now1)) \<and>
          fetchToZ w = toISOString now2 \<and>
          toOffset w = replace_first CHR ''Z'' ''+00:00'' (toISOString now2) \<and>
          length (key w) = 10 \<and>
          iso_instant (key w @ ''T00:00:00.000Z'') = Some (MakeDate (Day (now1 + istOffsetMs)) 0)"
proof -
  obtain y m d where p: "kolkata_parts now1 = (y, m, d)" by (cases "kolkata_parts now1") auto
  have u: "Date_UTC y (m - 1) d 3 45 0 = Some (sessionOpen now1)"
    using Date_UTC_open [OF assms] by (simp add: p)
  show ?thesis
    using key_denotes_day [OF assms]
    by (simp add: computeTodayWindow_def p u)
qed

lemma sessionOpen_ist:
  "Day (sessionOpen now + istOffsetMs) = Day (now + istOffsetMs) \<and>
   TimeWithinDay (sessionOpen now + istOffsetMs) = MakeTime 9 15 0 0"
proof -
  have e: "sessionOpen now + istOffsetMs = 86400000 * Day (now + istOffsetMs) + 33300000"
    by (simp add: sessionOpen_def MakeDate_def MakeTime_def msPerDay_def istOffsetMs_def)
  have "(86400000 * Day (now + istOffsetMs) + 33300000) div 86400000 = Day (now + istOffsetMs)"
    by (rule int_div_pos_eq [of _ _ _ 33300000]) simp_all
  moreover have "(86400000 * Day (now + istOffsetMs) + 33300000) mod 86400000 = 33300000"
    by (rule int_mod_pos_eq [of _ _ "Day (now + istOffsetMs)"]) simp_all
  ultimately show ?thesis
    unfolding e by (simp add: Day_def TimeWithinDay_def msPerDay_def MakeTime_def)
qed

lemma sessionOpen_fields:
  "Day (sessionOpen now) = Day (now + istOffsetMs)"
  "HourFromTime (sessionOpen now) = 3" "MinFromTime (sessionOpen now) = 45"
  "SecFromTime (sessionOpen now) = 0" "msFromTime (sessionOpen now) = 0"
proof -
  let ?D = "Day (now + istOffsetMs)"
  have e: "sessionOpen now = 86400000 * ?D + 13500000"
    by (simp add: sessionOpen_def MakeDate_def MakeTime_def msPerDay_def)
  have "(86400000 * ?D + 13500000) div 86400000 = ?D"
    by (rule int_div_pos_eq [of _ _ _ 13500000]) simp_all
  then show "Day (sessionOpen now) = ?D" unfolding e by (simp add: Day_def msPerDay_def)
  have h: "(86400000 * ?D + 13500000) div 3600000 = 24 * ?D + 3"
    by (rule int_div_pos_eq [of _ _ _ 2700000]) simp_all
  have "(24 * ?D + 3) mod 24 = 3"
    by (rule int_mod_pos_eq [of _ _ ?D]) simp_all
  then show "HourFromTime (sessionOpen now) = 3" unfolding e HourFromTime_def h .
  have m: "(86400000 * ?D + 13500000) div 60000 = 1440 * ?D + 225"
    by (rule int_div_pos_eq [of _ _ _ 0]) simp_all
  have "(1440 * ?D + 225) mod 60 = 45"
    by (rule int_mod_pos_eq [of _ _ "24 * ?D + 3"]) simp_all
  then show "MinFromTime (sessionOpen now) = 45" unfolding e MinFromTime_def m .
  have s: "(86400000 * ?D + 13500000) div 1000 = 86400 * ?D + 13500"
    by (rule int_div_pos_eq [of _ _ _ 0]) simp_all
  have "(86400 * ?D + 13500) mod 60 = 0"
    by (rule int_mod_pos_eq [of _ _ "1440 * ?D + 225"]) simp_all
  then show "SecFromTime (sessionOpen now) = 0" unfolding e SecFromTime_def s .
  have "(86400000 * ?D + 13500000) mod 1000 = 0"
    by (rule int_mod_pos_eq [of _ _ "86400 * ?D + 13500"]) simp_all
  then show "msFromTime (sessionOpen now) = 0" unfolding e msFromTime_def .
qed

lemma iso_stamp_sessionOpen:
  "iso_stamp (sessionOpen now) =
     ymd_text (YearFromTime (now + istOffsetMs)) (MonthFromTime (now + istOffsetMs) + 1)
       (DateFromTime (now + istOffsetMs)) @ ''T03:45:00.000''"
proof -
  note f = sessionOpen_fields [of now]
  have y: "YearFromTime (sessionOpen now) = YearFromTime (now + istOffsetMs)"
    by (simp add: YearFromTime_def f(1))
  have w: "DayWithinYear (sessionOpen now) = DayWithinYear (now + istOffsetMs)"
    by (simp add: DayWithinYear_def f(1) y)
  have l: "InLeapYear (sessionOpen now) = InLeapYear (now + istOffsetMs)"
    by (simp add: InLeapYear_def y)
  have m: "MonthFromTime (sessionOpen now) = MonthFromTime (now + istOffsetMs)"
    by (simp add: MonthFromTime_def w l)
  have d: "DateFromTime (sessionOpen now) = DateFromTime (now + istOffsetMs)"
    by (simp add: DateFromTime_def w l m)
  show ?thesis
    by (simp add: iso_stamp_def y m d f(2-5) fixed_examples)
qed

lemma computeTodayWindow_texts:
  assumes "clock_reading now1" and "clock_reading now2"
  shows "\<exists>w. computeTodayWindow now1 now2 = Some w \<and>
      key w = ymd_text (YearFromTime (now1 + istOffsetMs)) (MonthFromTime (now1 + istOffsetMs) + 1)
                (DateFromTime (now1 + istOffsetMs)) \<and>
      fetchFromZ w = key w @ ''T03:45:00.000Z'' \<and>
      fromOffset w = key w @ ''T03:45:00.000+00:00'' \<and>
      fetchToZ w = iso_stamp now2 @ ''Z'' \<and>
      toOffset w = iso_stamp now2 @ ''+00:00'' \<and>
      fetchFromZ w = toISOString (sessionOpen now1) \<and>
      fromOffset w = replace_first CHR ''Z'' ''+00:00'' (toISOString (sessionOpen now1)) \<and>
      fetchToZ w = toISOString now2 \<and>
      toOffset w = replace_first CHR ''Z'' ''+00:00'' (toISOString now2)"
proof -
  let ?lt = "now1 + istOffsetMs"
  obtain y m d where p: "kolkata_parts now1 = (y, m, d)" by (cases "kolkata_parts now1") auto
  then have ymd: "YearFromTime ?lt = y" "MonthFromTime ?lt + 1 = m" "DateFromTime ?lt = d"
    by (simp_all add: kolkata_parts_def Let_def)
  have u: "Date_UTC y (m - 1) d 3 45 0 = Some (sessionOpen now1)"
    using Date_UTC_open [OF assms(1)] by (simp add: p)
  have yr: "1970 \<le> y \<and> y \<le> 9999"
    using clock_reading_ist [OF assms(1)] YearFromTime_range [of ?lt] by (simp add: ymd)
  have ky: "String_int y = fixed_digits 4 (nat y)" using yr by (simp add: String_int_year)
  have mr: "0 \<le> m \<and> m < 100" using MonthFromTime_range [of ?lt] ymd(2) by linarith
  have dr: "0 \<le> d \<and> d < 100" using DateFromTime_range [of ?lt] ymd(3) by linarith
  have km: "padStart 2 CHR ''0'' (String_int m) = fixed_digits 2 (nat m)"
    using mr pad2_fixed [of m] by (simp add: pad2_def)
  have kd: "padStart 2 CHR ''0'' (String_int d) = fixed_digits 2 (nat d)"
    using dr pad2_fixed [of d] by (simp add: pad2_def)
  have k: "String_int y @ ''-'' @ padStart 2 CHR ''0'' (String_int m) @ ''-'' @
      padStart 2 CHR ''0'' (String_int d) = ymd_text y m d"
    by (simp add: ymd_text_def ky km kd)
  have so: "toISOString (sessionOpen now1) = ymd_text y m d @ ''T03:45:00.000Z''"
    using sessionOpen_range [OF assms(1)]
    by (simp add: toISOString_stamp iso_stamp_sessionOpen ymd)
  have "replace_first CHR ''Z'' ''+00:00'' (toISOString (sessionOpen now1)) =
      iso_stamp (sessionOpen now1) @ ''+00:00''"
    using sessionOpen_range [OF assms(1)] replace_Z_stamp [of "sessionOpen now1"]
    by (simp add: toISOString_stamp)
  then have sf: "replace_first CHR ''Z'' ''+00:00'' (toISOString (sessionOpen now1)) =
      ymd_text y m d @ ''T03:45:00.000+00:00''"
    by (simp add: iso_stamp_sessionOpen ymd)
  have eo: "toISOString now2 = iso_stamp now2 @ ''Z''"
    using clock_reading_iso [OF assms(2)] by (simp add: toISOString_stamp)
  have ef: "replace_first CHR ''Z'' ''+00:00'' (toISOString now2) = iso_stamp now2 @ ''+00:00''"
    unfolding eo by (rule replace_Z_stamp)
  let ?w = "\<lparr> fromOffset = replace_first CHR ''Z'' ''+00:00'' (toISOString (sessionOpen now1)),
              toOffset = replace_first CHR ''Z'' ''+00:00'' (toISOString now2),
              fetchFromZ = toISOString (sessionOpen now1),
              fetchToZ = toISOString now2,
              key = ymd_text y m d \<rparr>"
  have c: "computeTodayWindow now1 now2 = Some ?w"
    using k by (simp add: computeTodayWindow_def p u)
  have "key ?w = ymd_text (YearFromTime ?lt) (MonthFromTime ?lt + 1) (DateFromTime ?lt)"
    by (simp add: ymd)
  moreover have "fetchFromZ ?w = key ?w @ ''T03:45:00.000Z''" by (simp add: so)
  moreover have "fromOffset ?w = key ?w @ ''T03:45:00.000+00:00''" by (simp add: sf)
  moreover have "fetchToZ ?w = iso_stamp now2 @ ''Z''" by (simp add: eo)
  moreover have "toOffset ?w = iso_stamp now2 @ ''+00:00''" by (simp add: ef)
  moreover have "fetchFromZ ?w = toISOString (sessionOpen now1)" by simp
  moreover have "fromOffset ?w = replace_first CHR ''Z'' ''+00:00'' (toISOString (sessionOpen now1))"
    by simp
  moreover have "fetchToZ ?w = toISOString now2" by simp
  moreover have "toOffset ?w = replace_first CHR ''Z'' ''+00:00'' (toISOString now2)" by simp
  ultimately show ?thesis using c by blast
qed

lemma example_calendar:
  "YearFromTime (1700020200000 + istOffsetMs) = 2023"
  "MonthFromTime (1700020200000 + istOffsetMs) + 1 = 11"
  "DateFromTime (1700020200000 + istOffsetMs) = 15"
proof -
  have d: "Day (1700020200000 + istOffsetMs) = 19676"
    by (simp add: Day_def msPerDay_def istOffsetMs_def)
  show y: "YearFromTime (1700020200000 + istOffsetMs) = 2023"
    by (simp add: YearFromTime_def YearFromDay_def d year_search.simps [of 19676 2023]
          DayFromYear_def)
  have w: "DayWithinYear (1700020200000 + istOffsetMs) = 318"
    by (simp add: DayWithinYear_def y d DayFromYear_def)
  have l: "InLeapYear (1700020200000 + istOffsetMs) = 0"
    by (simp add: InLeapYear_def y DaysInYear_def)
  show m: "MonthFromTime (1700020200000 + istOffsetMs) + 1 = 11"
    by (simp add: MonthFromTime_def MonthOfDay_def w l)
  show "DateFromTime (1700020200000 + istOffsetMs) = 15"
    using m by (simp add: DateFromTime_def w l month_start_def)
qed

lemma example_stamp: "iso_stamp 1700020200004 = ''2023-11-15T03:50:00.004''"
proof -
  have d: "Day 1700020200004 = 19676"
    by (simp add: Day_def msPerDay_def)
  have y: "YearFromTime 1700020200004 = 2023"
    by (simp add: YearFromTime_def YearFromDay_def d year_search.simps [of 19676 2023]
          DayFromYear_def)
  have w: "DayWithinYear 1700020200004 = 318"
    by (simp add: DayWithinYear_def y d DayFromYear_def)
  have l: "InLeapYear 1700020200004 = 0"
    by (simp add: InLeapYear_def y DaysInYear_def)
  have m: "MonthFromTime 1700020200004 = 10"
    by (simp add: MonthFromTime_def MonthOfDay_def w l)
  have dt: "DateFromTime 1700020200004 = 15"
    by (simp add: DateFromTime_def w l m month_start_def)
  have t: "HourFromTime 1700020200004 = 3" "MinFromTime 1700020200004 = 50"
    "SecFromTime 1700020200004 = 0" "msFromTime 1700020200004 = 4"
    by (simp_all add: HourFromTime_def MinFromTime_def SecFromTime_def msFromTime_def)
  show ?thesis
    by (simp add: iso_stamp_def y m dt t ymd_text_def fixed_digits_unfold decimal_digit_def)
qed

section \<open>Facts about the live tick stream client\<close>

lemma setPoints_updater_keep: "setPoints_updater prev bar = keep_last (prev @ [bar])"
  by (simp add: setPoints_updater_def keep_last_def Let_def)

lemma keep_last_append: "keep_last (keep_last xs @ ys) = keep_last (xs @ ys)"
  by (cases "length xs \<le> MAX_POINTS") (simp_all add: keep_last_def add.commute)

lemma keep_last_idem: "keep_last (keep_last xs) = keep_last xs"
  using keep_last_append [of xs "[]"] by simp

lemma deliver_points:
  "points st = keep_last (points st) \<Longrightarrow>
   points (deliver coerce st evs) = keep_last (points st @ map snd (emitted coerce st evs))"
proof (induction evs arbitrary: st)
  case Nil
  then show ?case by simp
next
  case (Cons ev evs)
  show ?case
  proof (cases "new_bar coerce st ev")
    case None
    then have "onmessage coerce st ev = st" by (simp add: onmessage_def)
    then show ?thesis using Cons None by simp
  next
    case (Some bar)
    let ?st = "onmessage coerce st ev"
    have p: "points ?st = keep_last (points st @ [bar])"
      using Some by (simp add: onmessage_def setPoints_updater_keep)
    then have "points ?st = keep_last (points ?st)" by (simp add: keep_last_idem)
    then have "points (deliver coerce ?st evs) =
        keep_last (points ?st @ map snd (emitted coerce ?st evs))"
      by (rule Cons.IH)
    then show ?thesis using Some by (simp add: p keep_last_append)
  qed
qed

lemma new_bar_throttle: "new_bar coerce st ev = Some bar \<Longrightarrow> 1000 \<le> nowMs ev - lastEmitMs st"
  by (auto simp: new_bar_def split: option.splits if_splits)

lemma onmessage_lastEmit:
  "new_bar coerce st ev = Some bar \<Longrightarrow> lastEmitMs (onmessage coerce st ev) = nowMs ev"
  by (simp add: onmessage_def)

lemma emitted_after_last:
  "(t, b) \<in> set (emitted coerce st evs) \<Longrightarrow> 1000 \<le> t - lastEmitMs st"
proof (induction evs arbitrary: st)
  case Nil
  then show ?case by simp
next
  case (Cons ev evs)
  show ?case
  proof (cases "new_bar coerce st ev")
    case None
    then show ?thesis using Cons by simp
  next
    case (Some bar)
    note th = new_bar_throttle [OF Some]
    from Cons.prems Some
    consider "t = nowMs ev" | "(t, b) \<in> set (emitted coerce (onmessage coerce st ev) evs)"
      by auto
    then show ?thesis
    proof cases
      case 1
      then show ?thesis using th by simp
    next
      case 2
      from Cons.IH [OF 2] have "1000 \<le> t - nowMs ev"
        by (simp add: onmessage_lastEmit [OF Some])
      then show ?thesis using th by simp
    qed
  qed
qed

lemma emitted_gaps: "sorted_wrt (\<lambda>a b. 1000 \<le> b - a) (map fst (emitted coerce st evs))"
proof (induction evs arbitrary: st)
  case Nil
  show ?case by simp
next
  case (Cons ev evs)
  show ?case
  proof (cases "new_bar coerce st ev")
    case None
    then show ?thesis using Cons by simp
  next
    case (Some bar)
    have "1000 \<le> t - nowMs ev" if "(t, b) \<in> set (emitted coerce (onmessage coerce st ev) evs)" for t b
      using emitted_after_last [OF that] by (simp add: onmessage_lastEmit [OF Some])
    then show ?thesis using Some Cons by auto
  qed
qed

lemma emitted_times_subset: "fst ` set (emitted coerce st evs) \<subseteq> nowMs ` set evs"
proof (induction evs arbitrary: st)
  case Nil
  show ?case by simp
next
  case (Cons ev evs)
  show ?case
  proof (cases "new_bar coerce st ev")
    case None
    then show ?thesis using Cons [of st] by auto
  next
    case (Some bar)
    then show ?thesis using Cons [of "onmessage coerce st ev"] by auto
  qed
qed

lemma emitted_all:
  "list_all (well_formed_tick coerce) evs \<Longrightarrow> spaced (lastEmitMs st) (map nowMs evs) \<Longrightarrow>
   map fst (emitted coerce st evs) = map nowMs evs"
proof (induction evs arbitrary: st)
  case Nil
  show ?case by simp
next
  case (Cons ev evs)
  obtain bar where b: "new_bar coerce st ev = Some bar"
    using Cons.prems by (auto simp: new_bar_def well_formed_tick_def Let_def split: option.splits)
  have "spaced (lastEmitMs (onmessage coerce st ev)) (map nowMs evs)"
    using Cons.prems by (simp add: onmessage_lastEmit [OF b])
  then have "map fst (emitted coerce (onmessage coerce st ev) evs) = map nowMs evs"
    using Cons.prems by (intro Cons.IH) simp_all
  then show ?case using b by simp
qed

lemma tick_at_well_formed: "well_formed_tick no_coercion (tick_at t)"
  by (simp add: well_formed_tick_def validated_def tick_at_def tick_msg_def ticks_of_def
        lp_of_def lpRaw_of_def)

lemma spaced_even:
  "1000 \<le> t0 + 1000 * int i - prev \<Longrightarrow>
   spaced prev (map (\<lambda>k. t0 + 1000 * int k) [i..<i + n])"
proof (induction n arbitrary: i prev)
  case 0
  show ?case by simp
next
  case (Suc n)
  have u: "[i..<i + Suc n] = i # [Suc i..<Suc i + n]" by (simp add: upt_conv_Cons)
  have "spaced (t0 + 1000 * int i) (map (\<lambda>k. t0 + 1000 * int k) [Suc i..<Suc i + n])"
    by (rule Suc.IH) simp
  then show ?case using Suc.prems unfolding u by simp
qed

lemma spread_facts:
  "list_all (well_formed_tick no_coercion) (spread n)"
  "spaced (lastEmitMs connected_state) (map nowMs (spread n))"
  "length (spread n) = n"
proof -
  show "list_all (well_formed_tick no_coercion) (spread n)"
    by (simp add: spread_def list_all_iff tick_at_well_formed)
  have "map nowMs (spread n) = map (\<lambda>k. 1700020500000 + 1000 * int k) [0..<0 + n]"
    by (simp add: spread_def tick_at_def comp_def)
  moreover have "spaced 0 (map (\<lambda>k. 1700020500000 + 1000 * int k) [0..<0 + n])"
    by (rule spaced_even) simp
  ultimately show "spaced (lastEmitMs connected_state) (map nowMs (spread n))"
    by (simp add: connected_state_def)
  show "length (spread n) = n" by (simp add: spread_def)
qed

text \<open>
  The messages that the validation of the handler drops, whatever the state and the
  clock: one that does not parse, one whose type tag is not \<open>ticks\<close>, one with no tick
  records, and one whose price, as the handler converts it, is not finite.
\<close>

lemma onmessage_drops_invalid:
  "evt_data ev = None \<or>
   (\<exists>msg. evt_data ev = Some msg \<and>
      (get_prop msg ''type'' \<noteq> Some (JStr ''ticks'') \<or> ticks_of msg = [] \<or>
       (\<exists>t0 rest. ticks_of msg = t0 # rest \<and>
          (lp_of coerce t0 = None \<or> (\<exists>lp. lp_of coerce t0 = Some lp \<and> \<not> isFinite lp)))))
   \<longrightarrow> new_bar coerce st ev = None \<and> onmessage coerce st ev = st \<and>
       emitted coerce st [ev] = []"
  by (auto simp: new_bar_def onmessage_def validated_def split: option.splits list.splits)

section \<open>Facts about the merge\<close>

lemma mset_sort_insert: "mset (sort_insert cmp x ys) = add_mset x (mset ys)"
  by (induction ys) auto

lemma mset_Array_sort: "mset (Array_sort cmp xs) = mset xs"
  unfolding Array_sort_def by (induction xs) (simp_all add: mset_sort_insert)

lemma length_Array_sort: "length (Array_sort cmp xs) = length xs"
  using mset_Array_sort [of cmp xs] by (metis size_mset)

lemma sort_insert_insort:
  assumes "getTime (timestamp x) \<noteq> None" and "parseable getTime ys"
  shows "sort_insert (compare_timestamps getTime) x ys = insort_key (time_of getTime) x ys"
  using assms
  by (induction ys) (auto simp: parseable_def compare_timestamps_def time_of_def)

lemma parseable_insort:
  "getTime (timestamp x) \<noteq> None \<Longrightarrow> parseable getTime ys \<Longrightarrow>
   parseable getTime (insort_key f x ys)"
  by (simp add: parseable_def list_all_iff set_insort_key)

lemma Array_sort_sort_key:
  "parseable getTime xs \<Longrightarrow>
   Array_sort (compare_timestamps getTime) xs = sort_key (time_of getTime) xs \<and>
   parseable getTime (sort_key (time_of getTime) xs)"
proof (induction xs)
  case Nil
  show ?case by (simp add: Array_sort_def parseable_def)
next
  case (Cons x xs)
  have x: "getTime (timestamp x) \<noteq> None" and xs: "parseable getTime xs"
    using Cons.prems by (simp_all add: parseable_def)
  note ih = Cons.IH [OF xs]
  have "Array_sort (compare_timestamps getTime) (x # xs) =
      sort_insert (compare_timestamps getTime) x (sort_key (time_of getTime) xs)"
    using ih by (simp add: Array_sort_def)
  also have "\<dots> = insort_key (time_of getTime) x (sort_key (time_of getTime) xs)"
    using x ih by (simp add: sort_insert_insort)
  finally show ?case using x ih by (simp add: sort_key_def parseable_insort)
qed

section \<open>The claims\<close>

subsection \<open>C1: a backfill response that arrives after a symbol switch\<close>

text \<open>
  Claim C1 says that a backfill response is discarded when the symbol or the session key
  has changed since the fetch was issued. The handler does not look at either. In the
  scenario below the view switches from INFY to TCS while the fetch for INFY is in flight
  (no error is retained and \<open>refetchBase\<close> has not been called); the response to the INFY
  fetch then sets the retained error and calls \<open>refetchBase\<close>.
\<close>

theorem stale_response_counterexample:
  "cur_symbol (hook_run mounted switch_scenario) = ''TCS'' \<and>
   map req_symbol (inflight (hook_run mounted switch_scenario)) = [''INFY'', ''TCS''] \<and>
   backfillError (hook_run mounted switch_scenario) = None \<and>
   refetchBase_calls (hook_run mounted switch_scenario) = 0 \<and>
   backfillError (hook_step (hook_run mounted switch_scenario)
      (Settle 0 (Resolved (Some ''Request failed'')))) = Some ''Request failed'' \<and>
   refetchBase_calls (hook_step (hook_run mounted switch_scenario)
      (Settle 0 (Resolved (Some ''Request failed'')))) = 1"
  by (simp add: hook_run_def switch_scenario_def backfill_effect_def shouldRun_def mounted_def
        after_fetch_def window0_def Let_def)

text \<open>
  Claim C1, amended. Whenever a fetch in flight settles, whatever the symbol and window of
  the latest render are, the retained backfill error becomes the error of the response
  (none when the response has none, the reason when the fetch was rejected) and
  \<open>refetchBase\<close> is called once; the symbol, window and cooldown marker stay as they are.
\<close>

theorem after_fetch_applied_unconditionally:
  "i < length (inflight c) \<longrightarrow>
     backfillError (hook_step c (Settle i outcome)) =
       (case outcome of Resolved err \<Rightarrow> err | Rejected e \<Rightarrow> Some e) \<and>
     refetchBase_calls (hook_step c (Settle i outcome)) = Suc (refetchBase_calls c) \<and>
     cur_symbol (hook_step c (Settle i outcome)) = cur_symbol c \<and>
     cur_window (hook_step c (Settle i outcome)) = cur_window c \<and>
     lastBackfillRef (hook_step c (Settle i outcome)) = lastBackfillRef c"
  by (simp add: after_fetch_def)

theorem after_fetch_applied_unconditionally_witness:
  "0 < length (inflight (hook_run (mounted :: string coordinator) switch_scenario)) \<and>
   backfillError (hook_step (hook_run mounted switch_scenario) (Settle 0 (Rejected ''boom''))) =
     Some ''boom'' \<and>
   refetchBase_calls (hook_step (hook_run mounted switch_scenario) (Settle 0 (Rejected ''boom''))) =
     Suc (refetchBase_calls (hook_run (mounted :: string coordinator) switch_scenario)) \<and>
   cur_symbol (hook_step (hook_run mounted switch_scenario) (Settle 0 (Rejected ''boom''))) = ''TCS''"
proof -
  have l: "0 < length (inflight (hook_run (mounted :: string coordinator) switch_scenario))"
    by (simp add: hook_run_def switch_scenario_def backfill_effect_def shouldRun_def mounted_def
        window0_def Let_def)
  have s: "cur_symbol (hook_run (mounted :: string coordinator) switch_scenario) = ''TCS''"
    by (simp add: hook_run_def switch_scenario_def backfill_effect_def shouldRun_def mounted_def
        window0_def Let_def)
  show ?thesis
    using l s after_fetch_applied_unconditionally
      [of 0 "hook_run (mounted :: string coordinator) switch_scenario" "Rejected ''boom''"]
    by simp
qed

subsection \<open>C2: equal timestamps in the merged series\<close>

text \<open>
  Claim C2 says that the merged series never holds two bars with the same timestamp. A
  historical bar and a live bar with the same timestamp are both in the merged series.
\<close>

theorem data_duplicate_counterexample:
  "data iso_instant True (Some [bar_at ''2023-11-15T03:55:00.000Z'' 100])
     [bar_at ''2023-11-15T03:55:00.000Z'' 101]
   = [bar_at ''2023-11-15T03:55:00.000Z'' 100, bar_at ''2023-11-15T03:55:00.000Z'' 101] \<and>
   \<not> distinct (map timestamp (data iso_instant True (Some [bar_at ''2023-11-15T03:55:00.000Z'' 100])
     [bar_at ''2023-11-15T03:55:00.000Z'' 101]))"
  by (simp add: data_def Array_sort_def compare_timestamps_def bar_at_def iso_instant_examples)

text \<open>
  Claim C2, amended. The merge removes no bar: with live mode enabled the merged series
  holds exactly the bars of the historical series and of the live buffer, each as often as
  it occurs there, and with live mode disabled those of the historical series; so its
  timestamps are pairwise different exactly when those of the inputs it is made of are.
\<close>

theorem data_no_deduplication:
  "mset (data getTime enabled baseSeries live) =
     (if enabled then mset (case baseSeries of None \<Rightarrow> [] | Some b \<Rightarrow> b) + mset live
      else mset (case baseSeries of None \<Rightarrow> [] | Some b \<Rightarrow> b)) \<and>
   (distinct (map timestamp (data getTime enabled baseSeries live)) \<longleftrightarrow>
      (if enabled
       then distinct (map timestamp ((case baseSeries of None \<Rightarrow> [] | Some b \<Rightarrow> b) @ live))
       else distinct (map timestamp (case baseSeries of None \<Rightarrow> [] | Some b \<Rightarrow> b))))"
proof -
  let ?base = "case baseSeries of None \<Rightarrow> [] | Some b \<Rightarrow> b"
  have m: "mset (data getTime enabled baseSeries live) =
      (if enabled then mset ?base + mset live else mset ?base)"
    by (cases "live = []") (simp_all add: data_def mset_Array_sort)
  have "mset (data getTime enabled baseSeries live) =
      mset (if enabled then ?base @ live else ?base)"
    using m by simp
  then have "image_mset timestamp (mset (data getTime enabled baseSeries live)) =
      image_mset timestamp (mset (if enabled then ?base @ live else ?base))"
    by (rule arg_cong)
  then have "mset (map timestamp (data getTime enabled baseSeries live)) =
      mset (map timestamp (if enabled then ?base @ live else ?base))"
    by (simp only: mset_map)
  then have "distinct (map timestamp (data getTime enabled baseSeries live)) =
      distinct (map timestamp (if enabled then ?base @ live else ?base))"
    by (rule mset_eq_imp_distinct_iff)
  then show ?thesis using m by simp
qed

theorem data_no_deduplication_witness:
  "distinct (map timestamp (data iso_instant True
     (Some [bar_at ''2023-11-15T04:00:00.000Z'' 101, bar_at ''2023-11-15T03:55:00.000Z'' 100])
     [bar_at ''2023-11-15T03:57:30.000Z'' 102])) \<and>
   \<not> distinct (map timestamp (data iso_instant True
     (Some [bar_at ''2023-11-15T04:00:00.000Z'' 101]) [bar_at ''2023-11-15T04:00:00.000Z'' 102]))"
  using data_no_deduplication [of iso_instant True
      "Some [bar_at ''2023-11-15T04:00:00.000Z'' 101, bar_at ''2023-11-15T03:55:00.000Z'' 100]"
      "[bar_at ''2023-11-15T03:57:30.000Z'' 102]"]
    data_no_deduplication [of iso_instant True
      "Some [bar_at ''2023-11-15T04:00:00.000Z'' 101]" "[bar_at ''2023-11-15T04:00:00.000Z'' 102]"]
  by (simp add: bar_at_def)

subsection \<open>C3: the order and the length of the merged series\<close>

text \<open>
  Claim C3 says that with live mode enabled the merged series is sorted by timestamp for
  every historical series and live buffer. With an empty live buffer a historical series
  that is out of order is returned as it is.
\<close>

theorem data_unsorted_counterexample:
  "data iso_instant True
     (Some [bar_at ''2023-11-15T04:00:00.000Z'' 101, bar_at ''2023-11-15T03:55:00.000Z'' 100]) []
   = [bar_at ''2023-11-15T04:00:00.000Z'' 101, bar_at ''2023-11-15T03:55:00.000Z'' 100] \<and>
   map (time_of iso_instant) (data iso_instant True
     (Some [bar_at ''2023-11-15T04:00:00.000Z'' 101, bar_at ''2023-11-15T03:55:00.000Z'' 100]) [])
   = [1700020800000, 1700020500000] \<and>
   \<not> sorted (map (time_of iso_instant) (data iso_instant True
     (Some [bar_at ''2023-11-15T04:00:00.000Z'' 101, bar_at ''2023-11-15T03:55:00.000Z'' 100]) []))"
  by (simp add: data_def time_of_def bar_at_def iso_instant_examples)

text \<open>
  Claim C3, amended. With live mode enabled: if the live buffer is not empty and all
  timestamps parse, the merged series is the stable sort by timestamp of the historical
  bars followed by the live bars, so it is sorted ascending; its length is the sum of the
  two lengths and it holds exactly the bars of both; with an empty live buffer it is the
  historical series unchanged; \<open>merge([], liveBars)\<close> is \<open>liveBars\<close> sorted by timestamp. With
  live mode disabled it is the historical series unchanged.
\<close>

theorem data_merge_sorted:
  "(parseable getTime (historical @ live) \<and> live \<noteq> [] \<longrightarrow>
      data getTime True (Some historical) live = sort_key (time_of getTime) (historical @ live) \<and>
      sorted (map (time_of getTime) (data getTime True (Some historical) live))) \<and>
   length (data getTime True (Some historical) live) = length historical + length live \<and>
   mset (data getTime True (Some historical) live) = mset historical + mset live \<and>
   data getTime True (Some historical) [] = historical \<and>
   (parseable getTime live \<longrightarrow>
      data getTime True (Some []) live = sort_key (time_of getTime) live \<and>
      sorted (map (time_of getTime) (data getTime True (Some []) live))) \<and>
   data getTime False (Some historical) live = historical"
proof -
  have a: "data getTime True (Some historical) live = sort_key (time_of getTime) (historical @ live)
      \<and> sorted (map (time_of getTime) (data getTime True (Some historical) live))"
    if p: "parseable getTime (historical @ live)" and l: "live \<noteq> []"
  proof -
    have "data getTime True (Some historical) live =
        Array_sort (compare_timestamps getTime) (historical @ live)"
      using l by (simp add: data_def)
    then have "data getTime True (Some historical) live =
        sort_key (time_of getTime) (historical @ live)"
      using Array_sort_sort_key [OF p] by simp
    then show ?thesis by simp
  qed
  have b: "mset (data getTime True (Some historical) live) = mset historical + mset live"
    by (cases "live = []") (simp_all add: data_def mset_Array_sort)
  have c: "length (data getTime True (Some historical) live) = length historical + length live"
    by (cases "live = []") (simp_all add: data_def length_Array_sort)
  have d: "data getTime True (Some []) live = sort_key (time_of getTime) live \<and>
      sorted (map (time_of getTime) (data getTime True (Some []) live))"
    if p: "parseable getTime live"
  proof -
    have "data getTime True (Some []) live = Array_sort (compare_timestamps getTime) live"
      by (cases live) (simp_all add: data_def Array_sort_def)
    then have "data getTime True (Some []) live = sort_key (time_of getTime) live"
      using Array_sort_sort_key [OF p] by simp
    then show ?thesis by simp
  qed
  show ?thesis using a b c d by (simp add: data_def)
qed

theorem data_merge_sorted_witness:
  "parseable iso_instant
     ([bar_at ''2023-11-15T04:00:00.000Z'' 101, bar_at ''2023-11-15T03:55:00.000Z'' 100] @
      [bar_at ''2023-11-15T03:57:30.000Z'' 102]) \<and>
   [bar_at ''2023-11-15T03:57:30.000Z'' 102] \<noteq> [] \<and>
   data iso_instant True
     (Some [bar_at ''2023-11-15T04:00:00.000Z'' 101, bar_at ''2023-11-15T03:55:00.000Z'' 100])
     [bar_at ''2023-11-15T03:57:30.000Z'' 102]
   = [bar_at ''2023-11-15T03:55:00.000Z'' 100, bar_at ''2023-11-15T03:57:30.000Z'' 102,
      bar_at ''2023-11-15T04:00:00.000Z'' 101] \<and>
   sorted (map (time_of iso_instant) (data iso_instant True
     (Some [bar_at ''2023-11-15T04:00:00.000Z'' 101, bar_at ''2023-11-15T03:55:00.000Z'' 100])
     [bar_at ''2023-11-15T03:57:30.000Z'' 102]))"
proof -
  let ?h = "[bar_at ''2023-11-15T04:00:00.000Z'' 101, bar_at ''2023-11-15T03:55:00.000Z'' 100]"
  let ?l = "[bar_at ''2023-11-15T03:57:30.000Z'' 102]"
  have p: "parseable iso_instant (?h @ ?l)"
    by (simp add: parseable_def bar_at_def iso_instant_examples)
  have ne: "?l \<noteq> []" by simp
  have t: "time_of iso_instant (bar_at ''2023-11-15T04:00:00.000Z'' 101) = 1700020800000"
    "time_of iso_instant (bar_at ''2023-11-15T03:55:00.000Z'' 100) = 1700020500000"
    "time_of iso_instant (bar_at ''2023-11-15T03:57:30.000Z'' 102) = 1700020650000"
    by (simp_all add: time_of_def bar_at_def iso_instant_examples)
  have s: "sort_key (time_of iso_instant) (?h @ ?l)
     = [bar_at ''2023-11-15T03:55:00.000Z'' 100, bar_at ''2023-11-15T03:57:30.000Z'' 102,
      bar_at ''2023-11-15T04:00:00.000Z'' 101]"
    by (simp add: sort_key_def t)
  have "parseable iso_instant (?h @ ?l) \<and> ?l \<noteq> [] \<longrightarrow>
      data iso_instant True (Some ?h) ?l = sort_key (time_of iso_instant) (?h @ ?l) \<and>
      sorted (map (time_of iso_instant) (data iso_instant True (Some ?h) ?l))"
    using data_merge_sorted [of iso_instant ?h ?l] by (rule conjunct1)
  with p ne have r: "data iso_instant True (Some ?h) ?l = sort_key (time_of iso_instant) (?h @ ?l)"
    "sorted (map (time_of iso_instant) (data iso_instant True (Some ?h) ?l))"
    by blast+
  from r(1) s have "data iso_instant True (Some ?h) ?l =
      [bar_at ''2023-11-15T03:55:00.000Z'' 100, bar_at ''2023-11-15T03:57:30.000Z'' 102,
       bar_at ''2023-11-15T04:00:00.000Z'' 101]"
    by (rule trans)
  with p ne r(2) show ?thesis by blast
qed

subsection \<open>C4: the refetch decision\<close>

text \<open>
  Claim C4. The decision is yes exactly when there is no marker, or the marker's symbol
  differs from the symbol, or the marker's key differs from the window's key, or more than
  60000 ms have passed since the marker's time. Hence, once an evaluation at \<open>now\<close> has
  said yes and the effect has recorded the marker, an evaluation for the same symbol and a
  window of the same key at most 60 seconds later says no; and an evaluation for a symbol
  other than the marker's says yes at any time.
\<close>

theorem shouldRun_decision:
  "(shouldRun lastRef symbol w now \<longleftrightarrow>
      lastRef = None \<or>
      (\<exists>l. lastRef = Some l \<and>
         (lb_symbol l \<noteq> symbol \<or> lb_key l \<noteq> key w \<or> 60000 < now - lb_atMs l))) \<and>
   (shouldRun (lastBackfillRef c) symbol w now \<and> symbol \<noteq> [] \<and> key w' = key w \<and>
      later - now \<le> 60000 \<longrightarrow>
      \<not> shouldRun (lastBackfillRef (backfill_effect True symbol (Some w) now c)) symbol w' later) \<and>
   (lb_symbol l \<noteq> symbol \<longrightarrow> shouldRun (Some l) symbol w now)"
  by (auto simp: shouldRun_def backfill_effect_def Let_def split: option.splits)

theorem shouldRun_decision_witness:
  "shouldRun None ''INFY'' window0 1700020000000 \<and>
   \<not> shouldRun (lastBackfillRef (backfill_effect True ''INFY'' (Some window0) 1700020000000
         (mounted :: string coordinator))) ''INFY'' window0 1700020060000 \<and>
   shouldRun (lastBackfillRef (backfill_effect True ''INFY'' (Some window0) 1700020000000
         (mounted :: string coordinator))) ''INFY'' window0 1700020060001 \<and>
   shouldRun (Some \<lparr> lb_symbol = ''INFY'', lb_key = ''2023-11-15'', lb_atMs = 1700020000000 \<rparr>)
     ''TCS'' window0 1700020000001"
proof -
  have a: "shouldRun (lastBackfillRef (mounted :: string coordinator)) ''INFY'' window0 1700020000000"
    by (simp add: shouldRun_def mounted_def)
  have b: "\<not> shouldRun (lastBackfillRef (backfill_effect True ''INFY'' (Some window0) 1700020000000
         (mounted :: string coordinator))) ''INFY'' window0 1700020060000"
    using a shouldRun_decision [of None "''INFY''" window0 1700020000000
        "mounted :: string coordinator" window0 1700020060000]
    by simp
  have c: "shouldRun (lastBackfillRef (backfill_effect True ''INFY'' (Some window0) 1700020000000
         (mounted :: string coordinator))) ''INFY'' window0 1700020060001"
    using shouldRun_decision [of "lastBackfillRef (backfill_effect True ''INFY'' (Some window0)
        1700020000000 (mounted :: string coordinator))" "''INFY''" window0 1700020060001]
    by (simp add: backfill_effect_def mounted_def shouldRun_def Let_def)
  have d: "shouldRun (Some \<lparr> lb_symbol = ''INFY'', lb_key = ''2023-11-15'', lb_atMs = 1700020000000 \<rparr>)
     ''TCS'' window0 1700020000001"
    using shouldRun_decision [of None "''TCS''" window0 1700020000001
        "mounted :: string coordinator" window0 0
        "\<lparr> lb_symbol = ''INFY'', lb_key = ''2023-11-15'', lb_atMs = 1700020000000 \<rparr>"]
    by (elim conjE) simp
  from a b c d show ?thesis by (simp add: mounted_def)
qed

subsection \<open>C5: the throttle\<close>

text \<open>
  Claim C5. For every sequence of messages and every state of the client: of any two bars
  emitted, the later is emitted at least 1000 ms of \<open>Date.now()\<close> after the earlier; messages
  whose times all lie within 500 ms of each other yield at most one bar; and well-formed
  messages, each at least a second after the one before (the first at least a second
  after the last emission), yield one bar each.
\<close>

theorem throttle_one_per_second:
  "sorted_wrt (\<lambda>a b. 1000 \<le> b - a) (map fst (emitted coerce st evs)) \<and>
   ((\<forall>e \<in> set evs. lo \<le> nowMs e \<and> nowMs e \<le> lo + 500) \<longrightarrow>
      length (emitted coerce st evs) \<le> 1) \<and>
   (list_all (well_formed_tick coerce) evs \<and> spaced (lastEmitMs st) (map nowMs evs) \<longrightarrow>
      map fst (emitted coerce st evs) = map nowMs evs \<and>
      length (emitted coerce st evs) = length evs)"
proof -
  note g = emitted_gaps [of coerce st evs]
  have burst: "length (emitted coerce st evs) \<le> 1"
    if r: "\<forall>e \<in> set evs. lo \<le> nowMs e \<and> nowMs e \<le> lo + 500"
  proof (rule ccontr)
    assume "\<not> length (emitted coerce st evs) \<le> 1"
    then obtain x y zs where e: "emitted coerce st evs = x # y # zs"
      by (cases "emitted coerce st evs"; cases "tl (emitted coerce st evs)") auto
    have "fst x \<in> nowMs ` set evs" "fst y \<in> nowMs ` set evs"
      using emitted_times_subset [of coerce st evs] e by auto
    then have "lo \<le> fst x" "fst y \<le> lo + 500" using r by auto
    moreover have "1000 \<le> fst y - fst x" using g e by simp
    ultimately show False by simp
  qed
  have all: "map fst (emitted coerce st evs) = map nowMs evs \<and>
      length (emitted coerce st evs) = length evs"
    if "list_all (well_formed_tick coerce) evs" and "spaced (lastEmitMs st) (map nowMs evs)"
  proof -
    have m: "map fst (emitted coerce st evs) = map nowMs evs" using that by (rule emitted_all)
    have "length (map fst (emitted coerce st evs)) = length (map nowMs evs)"
      by (simp only: m)
    then have "length (emitted coerce st evs) = length evs" by (simp only: length_map)
    then show ?thesis using m by simp
  qed
  show ?thesis using g burst all by blast
qed

theorem throttle_one_per_second_witness:
  "list_all (\<lambda>e. 1700020500000 \<le> nowMs e \<and> nowMs e \<le> 1700020500000 + 500) (burst 100) \<and>
   length (burst 100) = 100 \<and>
   length (emitted no_coercion connected_state (burst 100)) \<le> 1 \<and>
   list_all (well_formed_tick no_coercion) (spread 100) \<and>
   spaced (lastEmitMs connected_state) (map nowMs (spread 100)) \<and>
   length (emitted no_coercion connected_state (spread 100)) = 100"
proof -
  have b: "\<forall>e \<in> set (burst 100). 1700020500000 \<le> nowMs e \<and> nowMs e \<le> 1700020500000 + 500"
    by (auto simp: burst_def tick_at_def)
  have l: "length (burst 100) = 100" by (simp add: burst_def)
  note t1 = throttle_one_per_second [of no_coercion connected_state "burst 100" 1700020500000]
  note t2 = throttle_one_per_second [of no_coercion connected_state "spread 100" 0]
  have "length (emitted no_coercion connected_state (burst 100)) \<le> 1" using t1 b by blast
  moreover have "length (emitted no_coercion connected_state (spread 100)) = length (spread 100)"
    using t2 spread_facts(1,2) [of 100] by blast
  moreover have "list_all (\<lambda>e. 1700020500000 \<le> nowMs e \<and> nowMs e \<le> 1700020500000 + 500)
      (burst 100)"
    using b by (simp add: list_all_iff)
  ultimately show ?thesis using l spread_facts [of 100] by simp
qed

subsection \<open>C6: the bound of the live buffer\<close>

text \<open>
  Claim C6. After any sequence of messages on a connection the buffer holds the bars
  emitted on it, in the order of their emission, without the oldest ones beyond 30000: its
  length is the smaller of 30000 and the number of emitted bars. From a state with at most
  30000 points no sequence of messages leads to more than 30000.
\<close>

theorem live_buffer_bound:
  "points (deliver coerce connected_state evs) =
     drop (length (emitted coerce connected_state evs) - 30000) (map snd (emitted coerce connected_state evs)) \<and>
   length (points (deliver coerce connected_state evs)) = min 30000 (length (emitted coerce connected_state evs)) \<and>
   (length (points st) \<le> 30000 \<longrightarrow> length (points (deliver coerce st evs)) \<le> 30000)"
proof -
  have c: "points connected_state = keep_last (points connected_state)"
    by (simp add: connected_state_def keep_last_def)
  have a: "points (deliver coerce connected_state evs) =
     drop (length (emitted coerce connected_state evs) - 30000) (map snd (emitted coerce connected_state evs))"
    using deliver_points [OF c, of coerce evs] by (simp add: connected_state_def keep_last_def MAX_POINTS_def)
  have b: "length (points (deliver coerce st evs)) \<le> 30000" if "length (points st) \<le> 30000"
  proof -
    have "points st = keep_last (points st)" using that by (simp add: keep_last_def MAX_POINTS_def)
    from deliver_points [OF this, of coerce evs] show ?thesis
      by (simp add: keep_last_def MAX_POINTS_def)
  qed
  show ?thesis using a b by auto
qed

theorem live_buffer_bound_witness:
  "length (emitted no_coercion connected_state (spread 30001)) = 30001 \<and>
   length (points (deliver no_coercion connected_state (spread 30001))) = 30000 \<and>
   points (deliver no_coercion connected_state (spread 30001)) =
     drop 1 (map snd (emitted no_coercion connected_state (spread 30001))) \<and>
   length (points (connected_state :: live_state)) \<le> 30000 \<and>
   length (points (deliver no_coercion connected_state (spread 30001))) \<le> 30000"
proof -
  have "map fst (emitted no_coercion connected_state (spread 30001)) = map nowMs (spread 30001)"
    using spread_facts(1,2) by (rule emitted_all)
  then have "length (map fst (emitted no_coercion connected_state (spread 30001))) =
      length (map nowMs (spread 30001))" by (simp only:)
  then have n: "length (emitted no_coercion connected_state (spread 30001)) = 30001"
    by (simp only: length_map spread_facts(3))
  have c: "length (points (connected_state :: live_state)) \<le> 30000" by (simp add: connected_state_def)
  note t = live_buffer_bound [of no_coercion "spread 30001" connected_state]
  from t have "length (points (deliver no_coercion connected_state (spread 30001))) \<le> 30000"
    using c by blast
  moreover from t have "length (points (deliver no_coercion connected_state (spread 30001))) = 30000"
    by (simp add: n)
  moreover from t have "points (deliver no_coercion connected_state (spread 30001)) =
     drop 1 (map snd (emitted no_coercion connected_state (spread 30001)))"
    by (simp add: n)
  ultimately show ?thesis using n c by simp
qed

subsection \<open>C7: stability of the window within a day\<close>

text \<open>
  Claim C7. Two invocations whose first clock readings fall on the same calendar day in
  India return the same start (as text and as instant) and the same key; the end instants
  are ordered as the second clock readings are; if the second invocation falls on a later
  Indian calendar day, its key differs and its start instant is later.
\<close>

theorem computeTodayWindow_stable_within_day:
  assumes "clock_reading a1" and "clock_reading a2" and "clock_reading b1" and "clock_reading b2"
  shows "\<exists>wa wb sa sb ea eb.
      computeTodayWindow a1 a2 = Some wa \<and> computeTodayWindow b1 b2 = Some wb \<and>
      iso_instant (fetchFromZ wa) = Some sa \<and> iso_instant (fromOffset wa) = Some sa \<and>
      iso_instant (fetchFromZ wb) = Some sb \<and> iso_instant (fromOffset wb) = Some sb \<and>
      iso_instant (fetchToZ wa) = Some ea \<and> iso_instant (toOffset wa) = Some ea \<and>
      iso_instant (fetchToZ wb) = Some eb \<and> iso_instant (toOffset wb) = Some eb \<and>
      (Day (a1 + istOffsetMs) = Day (b1 + istOffsetMs) \<longrightarrow>
         fetchFromZ wa = fetchFromZ wb \<and> fromOffset wa = fromOffset wb \<and> sa = sb \<and>
         key wa = key wb) \<and>
      (a2 \<le> b2 \<longrightarrow> ea \<le> eb) \<and>
      (Day (a1 + istOffsetMs) < Day (b1 + istOffsetMs) \<longrightarrow> key wa \<noteq> key wb \<and> sa < sb)"
proof -
  obtain wa where wa: "computeTodayWindow a1 a2 = Some wa"
    "fetchFromZ wa = toISOString (sessionOpen a1)"
    "fromOffset wa = replace_first CHR ''Z'' ''+00:00'' (toISOString (sessionOpen a1))"
    "fetchToZ wa = toISOString a2"
    "toOffset wa = replace_first CHR ''Z'' ''+00:00'' (toISOString a2)"
    "iso_instant (key wa @ ''T00:00:00.000Z'') = Some (MakeDate (Day (a1 + istOffsetMs)) 0)"
    using computeTodayWindow_fields [OF assms(1), of a2] by blast
  obtain wb where wb: "computeTodayWindow b1 b2 = Some wb"
    "fetchFromZ wb = toISOString (sessionOpen b1)"
    "fromOffset wb = replace_first CHR ''Z'' ''+00:00'' (toISOString (sessionOpen b1))"
    "fetchToZ wb = toISOString b2"
    "toOffset wb = replace_first CHR ''Z'' ''+00:00'' (toISOString b2)"
    "iso_instant (key wb @ ''T00:00:00.000Z'') = Some (MakeDate (Day (b1 + istOffsetMs)) 0)"
    using computeTodayWindow_fields [OF assms(3), of b2] by blast
  note oa = sessionOpen_range [OF assms(1)] and ob = sessionOpen_range [OF assms(3)]
  note na = clock_reading_iso [OF assms(2)] and nb = clock_reading_iso [OF assms(4)]
  have sa: "iso_instant (fetchFromZ wa) = Some (sessionOpen a1)"
    "iso_instant (fromOffset wa) = Some (sessionOpen a1)"
    using oa by (simp_all add: wa(2,3) iso_instant_toISOString iso_instant_offset_form)
  have sb: "iso_instant (fetchFromZ wb) = Some (sessionOpen b1)"
    "iso_instant (fromOffset wb) = Some (sessionOpen b1)"
    using ob by (simp_all add: wb(2,3) iso_instant_toISOString iso_instant_offset_form)
  have ea: "iso_instant (fetchToZ wa) = Some a2" "iso_instant (toOffset wa) = Some a2"
    using na by (simp_all add: wa(4,5) iso_instant_toISOString iso_instant_offset_form)
  have eb: "iso_instant (fetchToZ wb) = Some b2" "iso_instant (toOffset wb) = Some b2"
    using nb by (simp_all add: wb(4,5) iso_instant_toISOString iso_instant_offset_form)
  have same: "fetchFromZ wa = fetchFromZ wb \<and> fromOffset wa = fromOffset wb \<and>
      sessionOpen a1 = sessionOpen b1 \<and> key wa = key wb"
    if d: "Day (a1 + istOffsetMs) = Day (b1 + istOffsetMs)"
  proof -
    have s: "sessionOpen a1 = sessionOpen b1" using d by (simp add: sessionOpen_def)
    have p: "kolkata_parts a1 = kolkata_parts b1"
      using d
      by (simp add: kolkata_parts_def Let_def YearFromTime_def DateFromTime_def
            MonthFromTime_def DayWithinYear_def InLeapYear_def)
    have "map_option key (computeTodayWindow a1 a2) = map_option key (computeTodayWindow b1 b2)"
      using Date_UTC_open [OF assms(1)] Date_UTC_open [OF assms(3)] s
      by (auto simp: computeTodayWindow_def p split: prod.splits)
    then have "key wa = key wb" by (simp add: wa(1) wb(1))
    then show ?thesis using s by (simp add: wa(2,3) wb(2,3))
  qed
  have later: "key wa \<noteq> key wb \<and> sessionOpen a1 < sessionOpen b1"
    if d: "Day (a1 + istOffsetMs) < Day (b1 + istOffsetMs)"
  proof -
    have "MakeDate (Day (a1 + istOffsetMs)) 0 \<noteq> MakeDate (Day (b1 + istOffsetMs)) 0"
      using d by (simp add: MakeDate_def msPerDay_def)
    then have "key wa \<noteq> key wb" using wa(6) wb(6) by auto
    moreover have "sessionOpen a1 < sessionOpen b1"
      using d by (simp add: sessionOpen_def MakeDate_def msPerDay_def)
    ultimately show ?thesis by simp
  qed
  show ?thesis
    apply (rule exI [of _ wa], rule exI [of _ wb])
    apply (rule exI [of _ "sessionOpen a1"], rule exI [of _ "sessionOpen b1"])
    apply (rule exI [of _ a2], rule exI [of _ b2])
    using wa(1) wb(1) sa sb ea eb same later by simp
qed

theorem computeTodayWindow_stable_within_day_witness:
  "clock_reading 1700020200000 \<and> clock_reading 1700020200004 \<and>
   clock_reading 1700020230000 \<and> clock_reading 1700020230003 \<and>
   clock_reading 1700106600000 \<and> clock_reading 1700106600002 \<and>
   Day (1700020200000 + istOffsetMs) = Day (1700020230000 + istOffsetMs) \<and>
   (1700020200004 :: int) \<le> 1700020230003 \<and>
   (\<exists>wa wb ea eb.
      computeTodayWindow 1700020200000 1700020200004 = Some wa \<and>
      computeTodayWindow 1700020230000 1700020230003 = Some wb \<and>
      fetchFromZ wa = fetchFromZ wb \<and> fromOffset wa = fromOffset wb \<and> key wa = key wb \<and>
      iso_instant (fetchToZ wa) = Some ea \<and> iso_instant (fetchToZ wb) = Some eb \<and> ea \<le> eb) \<and>
   Day (1700020200000 + istOffsetMs) < Day (1700106600000 + istOffsetMs) \<and>
   (\<exists>wa wb sa sb.
      computeTodayWindow 1700020200000 1700020200004 = Some wa \<and>
      computeTodayWindow 1700106600000 1700106600002 = Some wb \<and>
      key wa \<noteq> key wb \<and>
      iso_instant (fetchFromZ wa) = Some sa \<and> iso_instant (fetchFromZ wb) = Some sb \<and> sa < sb)"
proof -
  have c: "clock_reading 1700020200000" "clock_reading 1700020200004"
    "clock_reading 1700020230000" "clock_reading 1700020230003"
    "clock_reading 1700106600000" "clock_reading 1700106600002"
    by (simp_all add: clock_reading_def istOffsetMs_def maxIsoTime_def)
  have d: "Day (1700020200000 + istOffsetMs) = Day (1700020230000 + istOffsetMs)"
    "Day (1700020200000 + istOffsetMs) < Day (1700106600000 + istOffsetMs)"
    by (simp_all add: Day_def msPerDay_def istOffsetMs_def)
  have e: "(1700020200004 :: int) \<le> 1700020230003" by simp
  have same: "\<exists>wa wb ea eb.
      computeTodayWindow 1700020200000 1700020200004 = Some wa \<and>
      computeTodayWindow 1700020230000 1700020230003 = Some wb \<and>
      fetchFromZ wa = fetchFromZ wb \<and> fromOffset wa = fromOffset wb \<and> key wa = key wb \<and>
      iso_instant (fetchToZ wa) = Some ea \<and> iso_instant (fetchToZ wb) = Some eb \<and> ea \<le> eb"
    using computeTodayWindow_stable_within_day [OF c(1) c(2) c(3) c(4)] d(1) e by blast
  have roll: "\<exists>wa wb sa sb.
      computeTodayWindow 1700020200000 1700020200004 = Some wa \<and>
      computeTodayWindow 1700106600000 1700106600002 = Some wb \<and>
      key wa \<noteq> key wb \<and>
      iso_instant (fetchFromZ wa) = Some sa \<and> iso_instant (fetchFromZ wb) = Some sb \<and> sa < sb"
    using computeTodayWindow_stable_within_day [OF c(1) c(2) c(5) c(6)] d(2) by blast
  show ?thesis using c d e same roll by blast
qed

subsection \<open>C8: the start instant and the key of the window\<close>

text \<open>
  Claim C8. For clock readings from 1970 to the end of the year 9999 in India, with the
  calendar date (year, month, day) of the first clock reading in India: the key is that
  date written \<open>YYYY-MM-DD\<close>, four, two and two digits, and the date is the one of the
  Indian day of the reading; the zone-suffixed start is the key followed by
  \<open>T03:45:00.000Z\<close>, the suffix-free start the key followed by \<open>T03:45:00.000+00:00\<close>, and
  both denote 03:45 UTC of that day, which is 09:15 of that day in India; the two forms of
  the end are the second clock reading written \<open>YYYY-MM-DDTHH:mm:ss.sss\<close> in UTC, followed
  by \<open>Z\<close> and by \<open>+00:00\<close>, and both denote that reading; neither suffix-free form
  contains a \<open>Z\<close>.
\<close>

theorem computeTodayWindow_start_and_key:
  assumes "clock_reading now1" and "clock_reading now2"
  shows "\<exists>w. computeTodayWindow now1 now2 = Some w \<and>
      iso_instant (fetchFromZ w) = Some (sessionOpen now1) \<and>
      iso_instant (fromOffset w) = Some (sessionOpen now1) \<and>
      Day (sessionOpen now1 + istOffsetMs) = Day (now1 + istOffsetMs) \<and>
      TimeWithinDay (sessionOpen now1 + istOffsetMs) = MakeTime 9 15 0 0 \<and>
      iso_instant (fetchToZ w) = Some now2 \<and>
      iso_instant (toOffset w) = Some now2 \<and>
      length (key w) = 10 \<and>
      iso_instant (key w @ ''T00:00:00.000Z'') = Some (MakeDate (Day (now1 + istOffsetMs)) 0) \<and>
      key w = ymd_text (YearFromTime (now1 + istOffsetMs)) (MonthFromTime (now1 + istOffsetMs) + 1)
                (DateFromTime (now1 + istOffsetMs)) \<and>
      MakeDay (YearFromTime (now1 + istOffsetMs)) (MonthFromTime (now1 + istOffsetMs))
        (DateFromTime (now1 + istOffsetMs)) = Day (now1 + istOffsetMs) \<and>
      1970 \<le> YearFromTime (now1 + istOffsetMs) \<and> YearFromTime (now1 + istOffsetMs) \<le> 9999 \<and>
      1 \<le> MonthFromTime (now1 + istOffsetMs) + 1 \<and> MonthFromTime (now1 + istOffsetMs) + 1 \<le> 12 \<and>
      1 \<le> DateFromTime (now1 + istOffsetMs) \<and> DateFromTime (now1 + istOffsetMs) \<le> 31 \<and>
      fetchFromZ w = key w @ ''T03:45:00.000Z'' \<and>
      fromOffset w = key w @ ''T03:45:00.000+00:00'' \<and>
      fetchToZ w = iso_stamp now2 @ ''Z'' \<and>
      toOffset w = iso_stamp now2 @ ''+00:00'' \<and>
      CHR ''Z'' \<notin> set (fromOffset w) \<and> CHR ''Z'' \<notin> set (toOffset w)"
proof -
  let ?lt = "now1 + istOffsetMs"
  obtain w where w: "computeTodayWindow now1 now2 = Some w"
    "key w = ymd_text (YearFromTime ?lt) (MonthFromTime ?lt + 1) (DateFromTime ?lt)"
    "fetchFromZ w = key w @ ''T03:45:00.000Z''"
    "fromOffset w = key w @ ''T03:45:00.000+00:00''"
    "fetchToZ w = iso_stamp now2 @ ''Z''"
    "toOffset w = iso_stamp now2 @ ''+00:00''"
    "fetchFromZ w = toISOString (sessionOpen now1)"
    "fromOffset w = replace_first CHR ''Z'' ''+00:00'' (toISOString (sessionOpen now1))"
    "fetchToZ w = toISOString now2"
    "toOffset w = replace_first CHR ''Z'' ''+00:00'' (toISOString now2)"
    using computeTodayWindow_texts [OF assms] by blast
  obtain w' where w': "computeTodayWindow now1 now2 = Some w'" "length (key w') = 10"
    "iso_instant (key w' @ ''T00:00:00.000Z'') = Some (MakeDate (Day (now1 + istOffsetMs)) 0)"
    using computeTodayWindow_fields [OF assms(1), of now2] by blast
  have ww: "w' = w" using w(1) w'(1) by simp
  note o = sessionOpen_range [OF assms(1)]
  note n = clock_reading_iso [OF assms(2)]
  have i1: "iso_instant (fetchFromZ w) = Some (sessionOpen now1)"
    using o by (simp add: w(7) iso_instant_toISOString)
  have i2: "iso_instant (fromOffset w) = Some (sessionOpen now1)"
    using o by (simp add: w(8) iso_instant_offset_form)
  have i3: "iso_instant (fetchToZ w) = Some now2"
    using n by (simp add: w(9) iso_instant_toISOString)
  have i4: "iso_instant (toOffset w) = Some now2"
    using n by (simp add: w(10) iso_instant_offset_form)
  have z1: "CHR ''Z'' \<notin> set (fromOffset w)"
    by (simp add: w(4) w(2) ymd_text_def fixed_digits_no_Z)
  have z2: "CHR ''Z'' \<notin> set (toOffset w)"
    by (simp add: w(6) iso_stamp_no_Z)
  have yr: "1970 \<le> YearFromTime ?lt \<and> YearFromTime ?lt \<le> 9999"
    using clock_reading_ist [OF assms(1)] YearFromTime_range [of ?lt] by simp
  have mr: "1 \<le> MonthFromTime ?lt + 1 \<and> MonthFromTime ?lt + 1 \<le> 12"
    using MonthFromTime_range [of ?lt] by simp
  note dr = DateFromTime_range [of ?lt]
  note md = MakeDay_of_time [of ?lt]
  note si = sessionOpen_ist [of now1]
  show ?thesis
    using w(1-6) w'(2,3) ww i1 i2 i3 i4 z1 z2 yr mr dr md si by blast
qed

theorem computeTodayWindow_start_and_key_witness:
  "clock_reading 1700020200000 \<and> clock_reading 1700020200004 \<and>
   (\<exists>w. computeTodayWindow 1700020200000 1700020200004 = Some w \<and>
      key w = ''2023-11-15'' \<and>
      fetchFromZ w = ''2023-11-15T03:45:00.000Z'' \<and>
      fromOffset w = ''2023-11-15T03:45:00.000+00:00'' \<and>
      fetchToZ w = ''2023-11-15T03:50:00.004Z'' \<and>
      toOffset w = ''2023-11-15T03:50:00.004+00:00'' \<and>
      iso_instant (fetchFromZ w) = Some 1700019900000 \<and>
      iso_instant (fromOffset w) = Some 1700019900000 \<and>
      iso_instant (fetchToZ w) = Some 1700020200004 \<and>
      iso_instant (toOffset w) = Some 1700020200004 \<and>
      length (key w) = 10)"
proof -
  have a: "clock_reading 1700020200000" and b: "clock_reading 1700020200004"
    by (simp_all add: clock_reading_def istOffsetMs_def maxIsoTime_def)
  have s: "sessionOpen 1700020200000 = 1700019900000"
    by (simp add: sessionOpen_def MakeDate_def MakeTime_def Day_def msPerDay_def istOffsetMs_def)
  obtain w where w: "computeTodayWindow 1700020200000 1700020200004 = Some w"
    "key w = ymd_text (YearFromTime (1700020200000 + istOffsetMs))
       (MonthFromTime (1700020200000 + istOffsetMs) + 1) (DateFromTime (1700020200000 + istOffsetMs))"
    "fetchFromZ w = key w @ ''T03:45:00.000Z''"
    "fromOffset w = key w @ ''T03:45:00.000+00:00''"
    "fetchToZ w = iso_stamp 1700020200004 @ ''Z''"
    "toOffset w = iso_stamp 1700020200004 @ ''+00:00''"
    "iso_instant (fetchFromZ w) = Some (sessionOpen 1700020200000)"
    "iso_instant (fromOffset w) = Some (sessionOpen 1700020200000)"
    "iso_instant (fetchToZ w) = Some 1700020200004"
    "iso_instant (toOffset w) = Some 1700020200004"
    "length (key w) = 10"
    using computeTodayWindow_start_and_key [OF a b] by blast
  have k: "key w = ''2023-11-15''"
    unfolding w(2) example_calendar by (rule fixed_examples(5))
  have "fetchFromZ w = ''2023-11-15T03:45:00.000Z''" unfolding w(3) k by simp
  moreover have "fromOffset w = ''2023-11-15T03:45:00.000+00:00''" unfolding w(4) k by simp
  moreover have "fetchToZ w = ''2023-11-15T03:50:00.004Z''" unfolding w(5) example_stamp by simp
  moreover have "toOffset w = ''2023-11-15T03:50:00.004+00:00''"
    unfolding w(6) example_stamp by simp
  ultimately show ?thesis using a b w(1) k w(7-11) unfolding s by blast
qed

subsection \<open>C9: messages that are dropped\<close>

text \<open>
  Claim C9. The claim does not hold of the handler at a first tick whose \<open>last_price\<close> is
  \<open>null\<close>: that is no finite number, but line 80 makes the number 0 of it, which passes the
  test of line 81, and on a fresh connection the message emits a bar at the price 0,
  whatever the conversion of strings, arrays and objects is. The neighbouring cases are
  dropped as the claim says, in every state: a first tick that is \<open>null\<close>, a first tick
  without \<open>last_price\<close>, and a \<open>last_price\<close> that is the number \<open>NaN\<close> or an infinity.
\<close>

theorem onmessage_null_price_emits_bar:
  "lpRaw_of (JObj [(''last_price'', JNull)]) = Some JNull \<and>
   onmessage coerce connected_state
     \<lparr> evt_data = Some (tick_msg JNull), nowMs = 1700020500000, nowDate = 1700020500000 \<rparr>
   = \<lparr> points = [\<lparr> timestamp = ''2023-11-15T03:55:00.000Z'', open_price = Finite 0,
                    high = Finite 0, low = Finite 0, close = Finite 0, volume = None \<rparr>],
       lastEmitMs = 1700020500000 \<rparr> \<and>
   onmessage coerce st
     \<lparr> evt_data = Some (JObj [(''type'', JStr ''ticks''), (''ticks'', JArr [JNull])]),
       nowMs = t, nowDate = t \<rparr> = st \<and>
   onmessage coerce st
     \<lparr> evt_data = Some (JObj [(''type'', JStr ''ticks''), (''ticks'', JArr [JObj []])]),
       nowMs = t, nowDate = t \<rparr> = st \<and>
   onmessage coerce st
     \<lparr> evt_data = Some (tick_msg (JNum NaN)), nowMs = t, nowDate = t \<rparr> = st \<and>
   onmessage coerce st
     \<lparr> evt_data = Some (tick_msg (JNum PosInfinity)), nowMs = t, nowDate = t \<rparr> = st"
  by (simp add: onmessage_def new_bar_def validated_def tick_msg_def ticks_of_def lp_of_def
        lpRaw_of_def connected_state_def setPoints_updater_def MAX_POINTS_def Let_def)

subsection \<open>C10: the merge with an empty live buffer\<close>

text \<open>
  Claim C10. With an empty live buffer the merge returns the historical series exactly as
  given, whether live mode is enabled or not; no sort is applied, so a historical series
  that is out of order stays so.
\<close>

theorem data_empty_live_passthrough:
  "data getTime enabled (Some historical) [] = historical \<and> data getTime enabled None [] = []"
  by (simp add: data_def)

theorem data_empty_live_passthrough_witness:
  "data iso_instant True
     (Some [bar_at ''2023-11-15T04:00:00.000Z'' 101, bar_at ''2023-11-15T03:55:00.000Z'' 100]) []
   = [bar_at ''2023-11-15T04:00:00.000Z'' 101, bar_at ''2023-11-15T03:55:00.000Z'' 100]"
  using data_empty_live_passthrough [of iso_instant True
      "[bar_at ''2023-11-15T04:00:00.000Z'' 101, bar_at ''2023-11-15T03:55:00.000Z'' 100]"]
  by simp

end
